theory Spec2Isabelle
  imports Main "HOL-Library.Multiset"
begin

section \<open>JavaScript values and asynchronous calls\<close>

text \<open>
  Both functions of \<^verbatim>\<open>src/server/util.ts\<close> are \<^verbatim>\<open>async\<close> functions that
  call into collaborators (the Prisma migration engine, the Prisma client, the
  datasource) and \<^verbatim>\<open>await\<close> each call. A call either resolves with a value
  or throws; it may change the world it runs against. A thrown value is an
  \<^verbatim>\<open>Error\<close> object, of which the code reads the \<^verbatim>\<open>message\<close> only.
\<close>

record js_error =
  message :: string

type_synonym ('w, 'a) async = "'w \<Rightarrow> 'w \<times> (js_error + 'a)"

definition resolve :: "'a \<Rightarrow> ('w, 'a) async" where
  "resolve x = (\<lambda>w. (w, Inr x))"

definition throw :: "js_error \<Rightarrow> ('w, 'a) async" where
  "throw e = (\<lambda>w. (w, Inl e))"

text \<open>\<^verbatim>\<open>const x = await m; f(x)\<close>: a throw of \<open>m\<close> skips the rest.\<close>

definition await :: "('w, 'a) async \<Rightarrow> ('a \<Rightarrow> ('w, 'b) async) \<Rightarrow> ('w, 'b) async" where
  "await m f = (\<lambda>w. case m w of (w', Inl e) \<Rightarrow> (w', Inl e) | (w', Inr x) \<Rightarrow> f x w')"

text \<open>
  \<^verbatim>\<open>try { m } finally { fin }\<close>: \<open>fin\<close> runs however \<open>m\<close> completes; a throw
  of \<open>fin\<close> replaces the completion of \<open>m\<close>, otherwise the completion of \<open>m\<close>
  stands.
\<close>

definition try_finally :: "('w, 'a) async \<Rightarrow> ('w, unit) async \<Rightarrow> ('w, 'a) async" where
  "try_finally m fin =
     (\<lambda>w. case m w of (w', r) \<Rightarrow>
        (case fin w' of (w'', Inl e) \<Rightarrow> (w'', Inl e) | (w'', Inr _) \<Rightarrow> (w'', r)))"

text \<open>\<^verbatim>\<open>String.prototype.startsWith\<close>.\<close>

definition startsWith :: "string \<Rightarrow> string \<Rightarrow> bool" where
  "startsWith s p = (take (length p) s = p)"

section \<open>The migration orchestrator: \<^verbatim>\<open>migrations()\<close>\<close>

subsection \<open>What the process does that an observer can see\<close>

datatype call =
    NewMigrate
  | EnsureDatabaseExists
  | DiagnoseMigrationHistory
  | ApplyMigrations
  | Stop

datatype level = Debug | Info | Error

datatype payload = Text string | ErrorObject js_error

datatype event =
    Call call
  | Log string level payload
  | ProcessExit int

text \<open>
  The state of the process: the world the engine works on (the database and
  the engine's session) and the events so far, oldest first.
\<close>

record 'w proc =
  world :: 'w
  trace :: "event list"

text \<open>\<^verbatim>\<open>Logger.get('database::migrations')\<close> and its three methods.\<close>

definition logger :: string where
  "logger = ''database::migrations''"

definition logger_debug :: "string \<Rightarrow> ('w proc, unit) async" where
  "logger_debug msg = (\<lambda>s. (s\<lparr>trace := trace s @ [Log logger Debug (Text msg)]\<rparr>, Inr ()))"

definition logger_info :: "string \<Rightarrow> ('w proc, unit) async" where
  "logger_info msg = (\<lambda>s. (s\<lparr>trace := trace s @ [Log logger Info (Text msg)]\<rparr>, Inr ()))"

definition logger_error :: "payload \<Rightarrow> ('w proc, unit) async" where
  "logger_error p = (\<lambda>s. (s\<lparr>trace := trace s @ [Log logger Error p]\<rparr>, Inr ()))"

subsection \<open>The Prisma migration engine, as the code uses it\<close>

text \<open>
  \<^verbatim>\<open>@prisma/migrate\<close> is a library outside the repository. The code uses
  the constructor \<^verbatim>\<open>new Migrate\<close>, \<^verbatim>\<open>ensureDatabaseExists\<close>, and the
  methods \<^verbatim>\<open>diagnoseMigrationHistory\<close>, \<^verbatim>\<open>applyMigrations\<close> and
  \<^verbatim>\<open>stop\<close>; they are parameters of the model. Of the diagnosis the code reads
  \<^verbatim>\<open>diagnose.history?.diagnostic\<close>: \<open>history\<close> may be absent.
\<close>

record history_diagnostic =
  diagnostic :: string

record diagnose_output =
  history :: "history_diagnostic option"

record 'w prisma_migrate =
  new_Migrate :: "('w, unit) async"
  ensureDatabaseExists :: "('w, unit) async"
  diagnoseMigrationHistory :: "('w, diagnose_output) async"
  applyMigrations :: "('w, unit) async"
  stop :: "('w, unit) async"

text \<open>\<^verbatim>\<open>diagnose.history?.diagnostic\<close>: undefined when there is no \<open>history\<close>.\<close>

definition history_diagnostic :: "diagnose_output \<Rightarrow> string option" where
  "history_diagnostic diagnose =
     (case history diagnose of None \<Rightarrow> None | Some h \<Rightarrow> Some (diagnostic h))"

text \<open>A call of the engine: the call is recorded, then it runs on the world.\<close>

definition invoke :: "call \<Rightarrow> ('w, 'a) async \<Rightarrow> ('w proc, 'a) async" where
  "invoke c m =
     (\<lambda>s. case m (world s) of (w', r) \<Rightarrow> (s\<lparr>world := w', trace := trace s @ [Call c]\<rparr>, r))"

subsection \<open>The function\<close>

text \<open>
  How \<^verbatim>\<open>migrations()\<close> ends: the promise resolves and the process goes on, or
  \<^verbatim>\<open>process.exit\<close> ends the process with a status.
\<close>

datatype outcome = Resolved | Exited int

text \<open>\<^verbatim>\<open>${process.env.DATABASE_URL}\<close>: an unset variable renders as \<^verbatim>\<open>undefined\<close>.\<close>

definition template_of :: "string option \<Rightarrow> string" where
  "template_of v = (case v of None \<Rightarrow> ''undefined'' | Some s \<Rightarrow> s)"

definition unable_to_connect :: "string option \<Rightarrow> string" where
  "unable_to_connect DATABASE_URL =
     ''Unable to connect to database `'' @ template_of DATABASE_URL
       @ ''`, check your database connection''"

text \<open>The body of the \<^verbatim>\<open>try\<close> block (lines 13 to 35).\<close>

definition migrations_try :: "'w prisma_migrate \<Rightarrow> ('w proc, unit) async" where
  "migrations_try migrate =
     await (logger_debug ''establishing database connection'') (\<lambda>_.
     await (invoke NewMigrate (new_Migrate migrate)) (\<lambda>_.
     await (logger_debug
       ''ensuring database exists, if not creating database - may error if no permissions'') (\<lambda>_.
     await (invoke EnsureDatabaseExists (ensureDatabaseExists migrate)) (\<lambda>_.
     await (invoke DiagnoseMigrationHistory (diagnoseMigrationHistory migrate)) (\<lambda>diagnose.
     if history_diagnostic diagnose = Some ''databaseIsBehind'' then
       await (logger_debug ''database is behind, attempting to migrate'') (\<lambda>_.
       try_finally
         (await (logger_debug ''migrating database'') (\<lambda>_.
          invoke ApplyMigrations (applyMigrations migrate)))
         (await (invoke Stop (stop migrate)) (\<lambda>_.
          logger_info ''finished migrating database'')))
     else
       await (logger_debug ''exiting migrations engine - database is up to date'') (\<lambda>_.
       invoke Stop (stop migrate)))))))"

text \<open>The \<^verbatim>\<open>catch\<close> block (lines 36 to 47): report, then \<^verbatim>\<open>process.exit(1)\<close>.\<close>

definition migrations_catch :: "string option \<Rightarrow> js_error \<Rightarrow> ('w proc, unit) async" where
  "migrations_catch DATABASE_URL error =
     (if startsWith (message error) ''P1001'' then
        logger_error (Text (unable_to_connect DATABASE_URL))
      else
        await (logger_error (Text ''Failed to migrate database... exiting...'')) (\<lambda>_.
        logger_error (ErrorObject error)))"

definition process_exit :: "int \<Rightarrow> 'w proc \<Rightarrow> 'w proc \<times> outcome" where
  "process_exit code s = (s\<lparr>trace := trace s @ [ProcessExit code]\<rparr>, Exited code)"

definition migrations :: "string option \<Rightarrow> 'w prisma_migrate \<Rightarrow> 'w proc \<Rightarrow> 'w proc \<times> outcome" where
  "migrations DATABASE_URL migrate s =
     (case migrations_try migrate s of
        (s', Inr _) \<Rightarrow> (s', Resolved)
      | (s', Inl error) \<Rightarrow> process_exit 1 (fst (migrations_catch DATABASE_URL error s')))"

subsection \<open>A store for the engine\<close>

text \<open>
  The spec's data model of the orchestrator: a \<open>MigrationState\<close>, the ordered
  sequence of applied migration identifiers, held against the expected lineage,
  and a \<open>DiagnosticResult\<close> relating the two.
\<close>

datatype DiagnosticResult = upToDate | behind | driftedOrUnknown

text \<open>
  The database the engine is connected to. \<open>faults\<close> lists the engine calls
  that throw, with what they throw (an unreachable server, a missing
  permission); \<open>broken\<close> lists the migrations whose application throws.
\<close>

record migration_db =
  lineage :: "string list"
  applied :: "string list"
  faults :: "(call \<times> js_error) list"
  broken :: "(string \<times> js_error) list"

text \<open>
  Modelled from the spec: the diagnosis of \<^verbatim>\<open>@prisma/migrate\<close>, which is not
  in the repository. The store is up to date when its history is the expected
  lineage, behind when it "is missing migrations that should be applied" (its
  history is a proper prefix of the lineage), and drifted on "a mismatch between
  a store's recorded migration history and any prefix of the expected lineage".
\<close>

definition diagnose_db :: "migration_db \<Rightarrow> DiagnosticResult" where
  "diagnose_db db =
     (if applied db = lineage db then upToDate
      else if take (length (applied db)) (lineage db) = applied db then behind
      else driftedOrUnknown)"

text \<open>
  Modelled from the spec: how the engine reports a \<open>DiagnosticResult\<close> in the
  shape the code reads. Only \<^verbatim>\<open>'databaseIsBehind'\<close> occurs in the source; an
  up-to-date store has no \<open>history\<close>, a drifted one has a \<open>history\<close> with
  another diagnostic.
\<close>

definition output_of :: "DiagnosticResult \<Rightarrow> diagnose_output" where
  "output_of d =
     (case d of
        upToDate \<Rightarrow> \<lparr>history = None\<rparr>
      | behind \<Rightarrow> \<lparr>history = Some \<lparr>diagnostic = ''databaseIsBehind''\<rparr>\<rparr>
      | driftedOrUnknown \<Rightarrow> \<lparr>history = Some \<lparr>diagnostic = ''historiesDiverge''\<rparr>\<rparr>)"

text \<open>
  Modelled from the spec: the application of \<^verbatim>\<open>@prisma/migrate\<close>, "apply all
  pending migrations in lineage order"; "on any application failure
  mid-sequence, the already-applied migrations in this call remain applied (no
  automatic rollback)". The result is the new history and the error of the
  migration that stopped the run, if one did.
\<close>

fun apply_pending ::
  "(string \<times> js_error) list \<Rightarrow> string list \<Rightarrow> string list \<Rightarrow> string list \<times> js_error option" where
  "apply_pending bad hist [] = (hist, None)"
| "apply_pending bad hist (m # ms) =
     (case map_of bad m of
        Some e \<Rightarrow> (hist, Some e)
      | None \<Rightarrow> apply_pending bad (hist @ [m]) ms)"

text \<open>
  Modelled from the spec: the pending migrations, those of the lineage after the
  ones the history holds.
\<close>

definition pending :: "migration_db \<Rightarrow> string list" where
  "pending db = drop (length (applied db)) (lineage db)"

text \<open>An engine call that throws when the database has a fault for it.\<close>

definition faulty :: "call \<Rightarrow> (migration_db, 'a) async \<Rightarrow> (migration_db, 'a) async" where
  "faulty c m = (\<lambda>db. case map_of (faults db) c of Some e \<Rightarrow> (db, Inl e) | None \<Rightarrow> m db)"

text \<open>
  Modelled from the spec: the engine of \<^verbatim>\<open>@prisma/migrate\<close> on this store.
  Diagnosis compares "without mutating anything"; application appends.
\<close>

definition engine :: "migration_db prisma_migrate" where
  "engine =
     \<lparr>new_Migrate = faulty NewMigrate (resolve ()),
      ensureDatabaseExists = faulty EnsureDatabaseExists (resolve ()),
      diagnoseMigrationHistory =
        faulty DiagnoseMigrationHistory (\<lambda>db. (db, Inr (output_of (diagnose_db db)))),
      applyMigrations =
        faulty ApplyMigrations (\<lambda>db.
          case apply_pending (broken db) (applied db) (pending db) of
            (hist, None) \<Rightarrow> (db\<lparr>applied := hist\<rparr>, Inr ())
          | (hist, Some e) \<Rightarrow> (db\<lparr>applied := hist\<rparr>, Inl e)),
      stop = faulty Stop (resolve ())\<rparr>"

text \<open>A process that has not started: nothing logged, nothing called.\<close>

definition boot :: "'w \<Rightarrow> 'w proc" where
  "boot w = \<lparr>world = w, trace = []\<rparr>"

text \<open>The engine calls of a trace, in order.\<close>

definition calls :: "event list \<Rightarrow> call list" where
  "calls evs = concat (map (\<lambda>ev. case ev of Call c \<Rightarrow> [c] | _ \<Rightarrow> []) evs)"

text \<open>
  Four databases: one whose history has left the lineage, one whose server
  cannot be reached, a freshly created one, and a freshly created one whose
  second migration cannot be applied.
\<close>

definition db_drifted :: migration_db where
  "db_drifted =
     \<lparr>lineage = [''20220101_init'', ''20220201_urls''],
      applied = [''20220101_init'', ''20220115_hotfix''],
      faults = [], broken = []\<rparr>"

definition db_unreachable :: migration_db where
  "db_unreachable =
     \<lparr>lineage = [''20220101_init'', ''20220201_urls''],
      applied = [],
      faults = [(EnsureDatabaseExists, \<lparr>message = ''P1001: Cannot reach database server''\<rparr>)],
      broken = []\<rparr>"

definition db_fresh :: migration_db where
  "db_fresh =
     \<lparr>lineage = [''20220101_init'', ''20220201_urls''],
      applied = [], faults = [], broken = []\<rparr>"

definition db_broken :: migration_db where
  "db_broken =
     \<lparr>lineage = [''20220101_init'', ''20220201_urls''],
      applied = [], faults = [],
      broken = [(''20220201_urls'', \<lparr>message = ''P3018: migration failed to apply''\<rparr>)]\<rparr>"

text \<open>A database whose server is lost between its creation and its diagnosis.\<close>

definition db_undiagnosed :: migration_db where
  "db_undiagnosed =
     db_fresh\<lparr>faults :=
       [(DiagnoseMigrationHistory, \<lparr>message = ''P1001: Cannot reach database server''\<rparr>)]\<rparr>"

text \<open>An up-to-date database: the fresh one after all its migrations.\<close>

definition db_current :: migration_db where
  "db_current = db_fresh\<lparr>applied := lineage db_fresh\<rparr>"

text \<open>
  What a run that finds nothing to apply logs and calls, and what a run that
  applies logs and calls up to the end of its \<^verbatim>\<open>finally\<close> block.
\<close>

definition noop_trace :: "event list" where
  "noop_trace =
     [Log logger Debug (Text ''establishing database connection''),
      Call NewMigrate,
      Log logger Debug (Text
        ''ensuring database exists, if not creating database - may error if no permissions''),
      Call EnsureDatabaseExists,
      Call DiagnoseMigrationHistory,
      Log logger Debug (Text ''exiting migrations engine - database is up to date''),
      Call Stop]"

definition apply_trace :: "event list" where
  "apply_trace =
     [Log logger Debug (Text ''establishing database connection''),
      Call NewMigrate,
      Log logger Debug (Text
        ''ensuring database exists, if not creating database - may error if no permissions''),
      Call EnsureDatabaseExists,
      Call DiagnoseMigrationHistory,
      Log logger Debug (Text ''database is behind, attempting to migrate''),
      Log logger Debug (Text ''migrating database''),
      Call ApplyMigrations,
      Call Stop,
      Log logger Info (Text ''finished migrating database'')]"

section \<open>The statistics aggregator: \<^verbatim>\<open>getStats()\<close>\<close>

subsection \<open>Rows, query results and the report\<close>

text \<open>
  Numbers are JavaScript numbers holding counts and sums of integer columns;
  they are modelled as integers. Of a user row the code reads \<^verbatim>\<open>id\<close> and
  \<^verbatim>\<open>username\<close>; of an image row the queries use \<^verbatim>\<open>userId\<close>,
  \<^verbatim>\<open>mimetype\<close> and \<^verbatim>\<open>views\<close>.
\<close>

record user =
  user_id :: int
  username :: string

record image =
  userId :: int
  mimetype :: string
  views :: int

text \<open>
  An element of \<^verbatim>\<open>byUser\<close>, \<^verbatim>\<open>{ userId, _count: { _all } }\<close>, and an
  element of \<^verbatim>\<open>typesCount\<close>, \<^verbatim>\<open>{ mimetype, _count: { mimetype } }\<close>.
\<close>

record userId_group =
  g_userId :: int
  g_count_all :: int

record mimetype_group =
  g_mimetype :: string
  g_count_mimetype :: int

text \<open>
  An element of \<^verbatim>\<open>count_by_user\<close>, \<^verbatim>\<open>{ username, count }\<close>, and an element
  of \<^verbatim>\<open>types_count\<close>, \<^verbatim>\<open>{ mimetype, count }\<close>.
\<close>

record by_user =
  u_username :: string
  u_count :: int

record by_type =
  t_mimetype :: string
  t_count :: int

text \<open>
  The object \<^verbatim>\<open>getStats\<close> returns. \<open>size_str\<close> is its field \<^verbatim>\<open>size\<close>
  and \<open>count_num\<close> its field \<^verbatim>\<open>count\<close>.
\<close>

record stats =
  size_str :: string
  size_num :: int
  count_num :: int
  count_by_user :: "by_user list"
  count_users :: int
  views_count :: int
  types_count :: "by_type list"

subsection \<open>The collaborators\<close>

text \<open>
  The Prisma client and the datasource, as the code uses them: the six queries
  of \<^verbatim>\<open>getStats\<close> and \<^verbatim>\<open>datasource.fullSize()\<close>. The result of the
  aggregate is the value of \<^verbatim>\<open>views?._sum?.views\<close>, absent when any link of
  the chain is.
\<close>

record 'w prisma_client =
  image_groupBy_userId :: "('w, userId_group list) async"
  user_count :: "('w, int) async"
  user_findFirst :: "int \<Rightarrow> ('w, user option) async"
  image_count :: "('w, int) async"
  image_aggregate_sum_views :: "('w, int option) async"
  image_groupBy_mimetype :: "('w, mimetype_group list) async"

record 'w datasource =
  fullSize :: "('w, int) async"

subsection \<open>JavaScript built-ins\<close>

text \<open>
  \<^verbatim>\<open>Array.prototype.sort(compare)\<close>: a stable sort; \<open>a\<close> comes before \<open>b\<close>
  when \<open>compare a b\<close> is negative, and elements that compare equal keep their
  order.
\<close>

fun insert_sorted :: "('a \<Rightarrow> 'a \<Rightarrow> int) \<Rightarrow> 'a \<Rightarrow> 'a list \<Rightarrow> 'a list" where
  "insert_sorted compare x [] = [x]"
| "insert_sorted compare x (y # ys) =
     (if compare x y \<le> 0 then x # y # ys else y # insert_sorted compare x ys)"

definition sort_js :: "('a \<Rightarrow> 'a \<Rightarrow> int) \<Rightarrow> 'a list \<Rightarrow> 'a list" where
  "sort_js compare xs = foldr (insert_sorted compare) xs []"

text \<open>
  The \<^verbatim>\<open>TypeError\<close> of reading a property of \<^verbatim>\<open>null\<close>, thrown by
  \<^verbatim>\<open>user.username\<close> when \<^verbatim>\<open>findFirst\<close> found no row.
\<close>

definition TypeError_null :: js_error where
  "TypeError_null = \<lparr>message = ''Cannot read properties of null (reading username)''\<rparr>"

subsection \<open>The function\<close>

text \<open>
  The loop of lines 71 to 82 over \<^verbatim>\<open>byUser\<close>: one \<^verbatim>\<open>findFirst\<close> for each
  group, in order; \<open>acc\<close> is \<^verbatim>\<open>count_by_user\<close> so far.
\<close>

fun count_by_user_loop ::
  "'w prisma_client \<Rightarrow> userId_group list \<Rightarrow> by_user list \<Rightarrow> ('w, by_user list) async" where
  "count_by_user_loop prisma [] acc w = (w, Inr acc)"
| "count_by_user_loop prisma (g # gs) acc w =
     (case user_findFirst prisma (g_userId g) w of
        (w', Inl e) \<Rightarrow> (w', Inl e)
      | (w', Inr None) \<Rightarrow> (w', Inl TypeError_null)
      | (w', Inr (Some user)) \<Rightarrow>
          count_by_user_loop prisma gs
            (acc @ [\<lparr>u_username = username user, u_count = g_count_all g\<rparr>]) w')"

text \<open>The loop of lines 99 to 103 over \<^verbatim>\<open>typesCount\<close>.\<close>

fun types_count_loop :: "mimetype_group list \<Rightarrow> by_type list \<Rightarrow> by_type list" where
  "types_count_loop [] acc = acc"
| "types_count_loop (g # gs) acc =
     types_count_loop gs (acc @ [\<lparr>t_mimetype = g_mimetype g, t_count = g_count_mimetype g\<rparr>])"

text \<open>
  \<^verbatim>\<open>bytesToHuman\<close> is a function of the repository that is not in the
  sources at hand; it is a parameter.
\<close>

definition getStats ::
  "(int \<Rightarrow> string) \<Rightarrow> 'w prisma_client \<Rightarrow> 'w datasource \<Rightarrow> ('w, stats) async" where
  "getStats bytesToHuman prisma datasource =
     await (fullSize datasource) (\<lambda>size'.
     await (image_groupBy_userId prisma) (\<lambda>byUser.
     await (user_count prisma) (\<lambda>count_users'.
     await (count_by_user_loop prisma byUser []) (\<lambda>count_by_user'.
     await (image_count prisma) (\<lambda>count'.
     await (image_aggregate_sum_views prisma) (\<lambda>views'.
     await (image_groupBy_mimetype prisma) (\<lambda>typesCount.
     resolve
       \<lparr>size_str = bytesToHuman size',
        size_num = size',
        count_num = count',
        count_by_user = sort_js (\<lambda>a b. u_count b - u_count a) count_by_user',
        count_users = count_users',
        views_count = (case views' of None \<Rightarrow> 0 | Some v \<Rightarrow> v),
        types_count =
          sort_js (\<lambda>a b. t_count b - t_count a) (types_count_loop typesCount [])\<rparr>)))))))"

subsection \<open>A store for the client\<close>

text \<open>
  The relational store and the datasource as the spec sees them: the objects,
  the users, and the bytes the storage backend reports.
\<close>

record store =
  images :: "image list"
  users :: "user list"
  occupied :: int

text \<open>A query answers from the store and leaves it as it is.\<close>

definition query :: "('w \<Rightarrow> 'a) \<Rightarrow> ('w, 'a) async" where
  "query f = (\<lambda>w. (w, Inr (f w)))"

text \<open>
  Modelled from the spec: the grouped queries of the Prisma client, which is
  not in the repository. "An aggregate query groups rows by a key and computes
  a count or sum per group"; the order of the groups is not documented, here
  each key stands where its last row does.
\<close>

definition groupBy_userId :: "image list \<Rightarrow> userId_group list" where
  "groupBy_userId rows =
     map (\<lambda>k. \<lparr>g_userId = k, g_count_all = int (length (filter (\<lambda>i. userId i = k) rows))\<rparr>)
       (remdups (map userId rows))"

definition groupBy_mimetype :: "image list \<Rightarrow> mimetype_group list" where
  "groupBy_mimetype rows =
     map (\<lambda>k. \<lparr>g_mimetype = k,
               g_count_mimetype = int (length (filter (\<lambda>i. mimetype i = k) rows))\<rparr>)
       (remdups (map mimetype rows))"

text \<open>
  Modelled from the spec: the sum of the view counters, "a missing value" when
  no objects exist.
\<close>

definition sum_views :: "image list \<Rightarrow> int option" where
  "sum_views rows = (if rows = [] then None else Some (sum_list (map views rows)))"

text \<open>
  Modelled from the spec: the Prisma client on the store, "grouped-aggregate
  queries (group-by + count, group-by + sum) and simple count/find queries".
\<close>

definition store_client :: "store prisma_client" where
  "store_client =
     \<lparr>image_groupBy_userId = query (\<lambda>st. groupBy_userId (images st)),
      user_count = query (\<lambda>st. int (length (users st))),
      user_findFirst = (\<lambda>k. query (\<lambda>st. find (\<lambda>u. user_id u = k) (users st))),
      image_count = query (\<lambda>st. int (length (images st))),
      image_aggregate_sum_views = query (\<lambda>st. sum_views (images st)),
      image_groupBy_mimetype = query (\<lambda>st. groupBy_mimetype (images st))\<rparr>"

text \<open>
  Modelled from the spec: the datasource, "providing only \<^verbatim>\<open>fullSize()\<close>", the
  total occupied storage.
\<close>

definition store_datasource :: "store datasource" where
  "store_datasource = \<lparr>fullSize = query occupied\<rparr>"

definition empty_store :: store where
  "empty_store = \<lparr>images = [], users = [], occupied = 0\<rparr>"

text \<open>
  The store of the spec's example: user A owns two PNG images, user B one
  JSON file.
\<close>

definition example_store :: store where
  "example_store =
     \<lparr>images =
        [\<lparr>userId = 1, mimetype = ''image/png'', views = 3\<rparr>,
         \<lparr>userId = 2, mimetype = ''application/json'', views = 0\<rparr>,
         \<lparr>userId = 1, mimetype = ''image/png'', views = 4\<rparr>],
      users = [\<lparr>user_id = 1, username = ''A''\<rparr>, \<lparr>user_id = 2, username = ''B''\<rparr>],
      occupied = 4096\<rparr>"

text \<open>The same store after user B's row has gone: an image without its owner.\<close>

definition orphan_store :: store where
  "orphan_store = example_store\<lparr>users := [\<lparr>user_id = 1, username = ''A''\<rparr>]\<rparr>"

text \<open>
  Two stores holding the same rows: two users with one image each, the images
  met in one order and in the other.
\<close>

definition tie_store :: store where
  "tie_store =
     \<lparr>images =
        [\<lparr>userId = 1, mimetype = ''image/png'', views = 0\<rparr>,
         \<lparr>userId = 2, mimetype = ''text/plain'', views = 0\<rparr>],
      users = [\<lparr>user_id = 1, username = ''A''\<rparr>, \<lparr>user_id = 2, username = ''B''\<rparr>],
      occupied = 2048\<rparr>"

definition tie_store_swapped :: store where
  "tie_store_swapped = tie_store\<lparr>images := rev (images tie_store)\<rparr>"

text \<open>A client whose count of the images times out.\<close>

definition failing_client :: "store prisma_client" where
  "failing_client = store_client\<lparr>image_count := throw \<lparr>message = ''P2024: timed out''\<rparr>\<rparr>"

subsection \<open>Notions the claims use\<close>

text \<open>
  The client and the datasource only read: whatever a query answers, it leaves
  the world as it found it.
\<close>

definition read_only :: "'w prisma_client \<Rightarrow> 'w datasource \<Rightarrow> bool" where
  "read_only prisma datasource \<longleftrightarrow>
     (\<forall>w. fst (fullSize datasource w) = w) \<and>
     (\<forall>w. fst (image_groupBy_userId prisma w) = w) \<and>
     (\<forall>w. fst (user_count prisma w) = w) \<and>
     (\<forall>k w. fst (user_findFirst prisma k w) = w) \<and>
     (\<forall>w. fst (image_count prisma w) = w) \<and>
     (\<forall>w. fst (image_aggregate_sum_views prisma w) = w) \<and>
     (\<forall>w. fst (image_groupBy_mimetype prisma w) = w)"

text \<open>
  One of the sub-queries of \<^verbatim>\<open>getStats\<close> throws on the world \<open>w\<close>: the size
  of the datasource, the grouping by owner, the count of the users, the lookup
  of the owner of one of the groups, the count of the images, the sum of the
  views, or the grouping by content type.
\<close>

definition some_query_fails :: "'w prisma_client \<Rightarrow> 'w datasource \<Rightarrow> 'w \<Rightarrow> bool" where
  "some_query_fails prisma datasource w \<longleftrightarrow>
     isl (snd (fullSize datasource w)) \<or>
     isl (snd (image_groupBy_userId prisma w)) \<or>
     isl (snd (user_count prisma w)) \<or>
     (case snd (image_groupBy_userId prisma w) of
        Inl _ \<Rightarrow> False
      | Inr byUser \<Rightarrow> \<exists>g\<in>set byUser. isl (snd (user_findFirst prisma (g_userId g) w))) \<or>
     isl (snd (image_count prisma w)) \<or>
     isl (snd (image_aggregate_sum_views prisma w)) \<or>
     isl (snd (image_groupBy_mimetype prisma w))"

text \<open>
  What the report owes to the owner \<open>k\<close> of a store: the name of the user
  row with that id (the first, as \<^verbatim>\<open>findFirst\<close> takes it) and the number of
  the images \<open>k\<close> owns; and what it owes to the content type \<open>k\<close>.
\<close>

definition owner_name :: "store \<Rightarrow> int \<Rightarrow> string" where
  "owner_name st k =
     (case find (\<lambda>u. user_id u = k) (users st) of None \<Rightarrow> [] | Some u \<Rightarrow> username u)"

definition owner_entry :: "store \<Rightarrow> int \<Rightarrow> by_user" where
  "owner_entry st k =
     \<lparr>u_username = owner_name st k,
      u_count = int (length (filter (\<lambda>i. userId i = k) (images st)))\<rparr>"

definition type_entry :: "store \<Rightarrow> string \<Rightarrow> by_type" where
  "type_entry st k =
     \<lparr>t_mimetype = k, t_count = int (length (filter (\<lambda>i. mimetype i = k) (images st)))\<rparr>"

section \<open>Properties of the migration orchestrator\<close>

subsection \<open>Running the function, step by step\<close>

lemmas run_defs =
  migrations_def migrations_try_def migrations_catch_def process_exit_def await_def
  try_finally_def invoke_def logger_debug_def logger_info_def logger_error_def

lemma migrations_try_not_behind:
  assumes "new_Migrate migrate (world s) = (w1, Inr ())"
    and "ensureDatabaseExists migrate w1 = (w2, Inr ())"
    and "diagnoseMigrationHistory migrate w2 = (w3, Inr diagnose)"
    and "history_diagnostic diagnose \<noteq> Some ''databaseIsBehind''"
    and "stop migrate w3 = (w4, r)"
  shows "migrations_try migrate s =
     (s\<lparr>world := w4, trace := trace s @
        [Log logger Debug (Text ''establishing database connection''),
         Call NewMigrate,
         Log logger Debug (Text
           ''ensuring database exists, if not creating database - may error if no permissions''),
         Call EnsureDatabaseExists,
         Call DiagnoseMigrationHistory,
         Log logger Debug (Text ''exiting migrations engine - database is up to date''),
         Call Stop]\<rparr>, r)"
  using assms by (simp add: run_defs)

lemma migrations_try_behind:
  assumes "new_Migrate migrate (world s) = (w1, Inr ())"
    and "ensureDatabaseExists migrate w1 = (w2, Inr ())"
    and "diagnoseMigrationHistory migrate w2 = (w3, Inr diagnose)"
    and "history_diagnostic diagnose = Some ''databaseIsBehind''"
    and "applyMigrations migrate w3 = (w4, r)"
    and "stop migrate w4 = (w5, Inr ())"
  shows "migrations_try migrate s =
     (s\<lparr>world := w5, trace := trace s @
        [Log logger Debug (Text ''establishing database connection''),
         Call NewMigrate,
         Log logger Debug (Text
           ''ensuring database exists, if not creating database - may error if no permissions''),
         Call EnsureDatabaseExists,
         Call DiagnoseMigrationHistory,
         Log logger Debug (Text ''database is behind, attempting to migrate''),
         Log logger Debug (Text ''migrating database''),
         Call ApplyMigrations,
         Call Stop,
         Log logger Info (Text ''finished migrating database'')]\<rparr>, r)"
  using assms by (simp add: run_defs)

subsection \<open>The engine on a store\<close>

lemma calls_append: "calls (xs @ ys) = calls xs @ calls ys"
  by (simp add: calls_def)

lemma engine_ok:
  assumes "faults db = []"
  shows "new_Migrate engine db = (db, Inr ())"
    and "ensureDatabaseExists engine db = (db, Inr ())"
    and "diagnoseMigrationHistory engine db = (db, Inr (output_of (diagnose_db db)))"
    and "stop engine db = (db, Inr ())"
  using assms by (simp_all add: engine_def faulty_def resolve_def)

lemma engine_apply:
  assumes "faults db = []"
    and "apply_pending (broken db) (applied db) (pending db) = (hist, r)"
  shows "applyMigrations engine db =
    (db\<lparr>applied := hist\<rparr>, case r of None \<Rightarrow> Inr () | Some e \<Rightarrow> Inl e)"
  using assms by (simp add: engine_def faulty_def split: option.splits)

lemma output_of_behind:
  "history_diagnostic (output_of d) = Some ''databaseIsBehind'' \<longleftrightarrow> d = behind"
  by (cases d) (simp_all add: output_of_def history_diagnostic_def)

lemma apply_pending_ok:
  "\<forall>m\<in>set ms. map_of bad m = None \<Longrightarrow> apply_pending bad hist ms = (hist @ ms, None)"
  by (induction ms arbitrary: hist) simp_all

lemma apply_pending_fail:
  "\<forall>x\<in>set pre. map_of bad x = None \<Longrightarrow> map_of bad m = Some e \<Longrightarrow>
   apply_pending bad hist (pre @ m # post) = (hist @ pre, Some e)"
  by (induction pre arbitrary: hist) simp_all

lemma behind_pending:
  "diagnose_db db = behind \<Longrightarrow> applied db @ pending db = lineage db"
proof -
  assume "diagnose_db db = behind"
  then have "take (length (applied db)) (lineage db) = applied db"
    by (simp add: diagnose_db_def split: if_splits)
  then show ?thesis
    unfolding pending_def by (metis append_take_drop_id)
qed

lemma fresh_pending: "applied db = [] \<Longrightarrow> pending db = lineage db"
  by (simp add: pending_def)

lemma run_not_behind:
  assumes "faults (world s) = []" and "diagnose_db (world s) \<noteq> behind"
  shows "migrations url engine s = (s\<lparr>trace := trace s @ noop_trace\<rparr>, Resolved)"
proof -
  have "migrations_try engine s = (s\<lparr>world := world s, trace := trace s @ noop_trace\<rparr>, Inr ())"
    unfolding noop_trace_def
    by (rule migrations_try_not_behind [OF engine_ok(1) engine_ok(2) engine_ok(3) _ engine_ok(4)])
      (simp_all add: assms output_of_behind)
  then show ?thesis by (simp add: migrations_def)
qed

lemma run_behind:
  assumes "faults (world s) = []" and "diagnose_db (world s) = behind"
    and "apply_pending (broken (world s)) (applied (world s)) (pending (world s)) = (hist, r)"
  shows "migrations_try engine s =
    (s\<lparr>world := (world s)\<lparr>applied := hist\<rparr>, trace := trace s @ apply_trace\<rparr>,
     case r of None \<Rightarrow> Inr () | Some e \<Rightarrow> Inl e)"
    unfolding apply_trace_def
    by (rule migrations_try_behind [OF engine_ok(1) engine_ok(2) engine_ok(3) _ engine_apply engine_ok(4)])
      (simp_all add: assms output_of_behind)


lemma calls_simps:
  "calls [] = []"
  "calls (Call c # evs) = c # calls evs"
  "calls (Log l v p # evs) = calls evs"
  "calls (ProcessExit n # evs) = calls evs"
  by (simp_all add: calls_def)

lemma calls_noop: "calls noop_trace = [NewMigrate, EnsureDatabaseExists, DiagnoseMigrationHistory, Stop]"
  by (simp add: calls_def noop_trace_def)

lemma calls_apply:
  "calls apply_trace = [NewMigrate, EnsureDatabaseExists, DiagnoseMigrationHistory, ApplyMigrations, Stop]"
  by (simp add: calls_def apply_trace_def)

lemma diagnose_db_lineage: "applied db = lineage db \<Longrightarrow> diagnose_db db = upToDate"
  by (simp add: diagnose_db_def)

lemma run_complete:
  assumes "faults (world s) = []" and "diagnose_db (world s) = behind"
    and "\<forall>m\<in>set (pending (world s)). map_of (broken (world s)) m = None"
  shows "migrations url engine s =
    (s\<lparr>world := (world s)\<lparr>applied := lineage (world s)\<rparr>, trace := trace s @ apply_trace\<rparr>,
     Resolved)"
proof -
  have "apply_pending (broken (world s)) (applied (world s)) (pending (world s)) =
      (lineage (world s), None)"
    using apply_pending_ok [OF assms(3)] behind_pending [OF assms(2)] by simp
  from run_behind [OF assms(1,2) this] show ?thesis
    by (simp add: migrations_def)
qed

lemma run_partial:
  assumes "faults (world s) = []" and "diagnose_db (world s) = behind"
    and "pending (world s) = pre @ m # post"
    and "\<forall>x\<in>set pre. map_of (broken (world s)) x = None"
    and "map_of (broken (world s)) m = Some e"
  shows "migrations (Some url) engine s =
    (s\<lparr>world := (world s)\<lparr>applied := applied (world s) @ pre\<rparr>,
       trace := trace s @ apply_trace @
         (if startsWith (message e) ''P1001''
          then [Log logger Error (Text
               (''Unable to connect to database `'' @ url @ ''`, check your database connection''))]
          else [Log logger Error (Text ''Failed to migrate database... exiting...''),
                Log logger Error (ErrorObject e)]) @ [ProcessExit 1]\<rparr>,
     Exited 1)"
proof -
  have "apply_pending (broken (world s)) (applied (world s)) (pending (world s)) =
      (applied (world s) @ pre, Some e)"
    using apply_pending_fail [OF assms(4,5)] assms(3) by simp
  from run_behind [OF assms(1,2) this] show ?thesis
    by (simp add: migrations_def migrations_catch_def process_exit_def await_def logger_error_def
        unable_to_connect_def template_of_def)
qed

lemma run_again:
  assumes "faults (world s) = []" and "diagnose_db (world s) = upToDate"
    and "migrations url engine s = (s', out)"
  shows "out = Resolved \<and> world s' = world s \<and>
    calls (trace s') = calls (trace s) @
      [NewMigrate, EnsureDatabaseExists, DiagnoseMigrationHistory, Stop]"
  using run_not_behind [of s url] assms by (auto simp: calls_append calls_noop)


subsection \<open>The claims about \<^verbatim>\<open>migrations()\<close>\<close>

text \<open>
  C1, as amended. For every diagnosis other than \<^verbatim>\<open>databaseIsBehind\<close>, a
  drifted or unknown history included, \<^verbatim>\<open>migrations()\<close> applies nothing, logs
  that the database is up to date, stops the engine and resolves: the process
  is not terminated. (Stated for a run whose engine calls do not throw.)
\<close>

theorem migrations_not_behind:
  assumes "new_Migrate migrate (world s) = (w1, Inr ())"
    and "ensureDatabaseExists migrate w1 = (w2, Inr ())"
    and "diagnoseMigrationHistory migrate w2 = (w3, Inr diagnose)"
    and "history_diagnostic diagnose \<noteq> Some ''databaseIsBehind''"
    and "stop migrate w3 = (w4, Inr ())"
  shows "migrations url migrate s = (s\<lparr>world := w4, trace := trace s @ noop_trace\<rparr>, Resolved)"
  using migrations_try_not_behind [OF assms] by (simp add: migrations_def noop_trace_def)

theorem migrations_not_behind_witness:
  "migrations None engine (boot db_drifted) = (\<lparr>world = db_drifted, trace = noop_trace\<rparr>, Resolved)"
proof -
  have f: "faults db_drifted = []" by (simp add: db_drifted_def)
  have d: "history_diagnostic (output_of (diagnose_db db_drifted)) \<noteq> Some ''databaseIsBehind''"
    by (simp add: db_drifted_def diagnose_db_def output_of_def history_diagnostic_def)
  have w: "world (boot db_drifted) = db_drifted" by (simp add: boot_def)
  show ?thesis
    using migrations_not_behind [of engine "boot db_drifted" db_drifted db_drifted db_drifted
        "output_of (diagnose_db db_drifted)" db_drifted None] engine_ok [OF f] d w
    by (simp add: boot_def)
qed

text \<open>
  C1, as stated, fails: on a store whose history has left the lineage the
  function resolves as it does on an up-to-date store, with no
  \<^verbatim>\<open>process.exit\<close>.
\<close>

theorem migrations_drift_counterexample:
  "diagnose_db db_drifted = driftedOrUnknown \<and>
   migrations (Some ''postgres://zipline@db/zipline'') engine (boot db_drifted) =
     (\<lparr>world = db_drifted, trace = noop_trace\<rparr>, Resolved)"
  by (simp add: run_defs noop_trace_def engine_def faulty_def resolve_def boot_def db_drifted_def
      diagnose_db_def output_of_def history_diagnostic_def)

text \<open>
  C2 fails on the code: when \<^verbatim>\<open>ensureDatabaseExists\<close> throws, the process
  exits with status 1 and the engine made by \<^verbatim>\<open>new Migrate\<close> has not been
  stopped; the only engine calls are the constructor and
  \<^verbatim>\<open>ensureDatabaseExists\<close>. Likewise when the diagnosis throws.
\<close>

theorem migrations_unreachable_no_stop:
  "snd (migrations (Some ''postgres://zipline@db/zipline'') engine (boot db_unreachable)) = Exited 1 \<and>
   calls (trace (fst (migrations (Some ''postgres://zipline@db/zipline'') engine (boot db_unreachable))))
     = [NewMigrate, EnsureDatabaseExists] \<and>
   snd (migrations (Some ''postgres://zipline@db/zipline'') engine (boot db_undiagnosed)) = Exited 1 \<and>
   calls (trace (fst (migrations (Some ''postgres://zipline@db/zipline'') engine (boot db_undiagnosed))))
     = [NewMigrate, EnsureDatabaseExists, DiagnoseMigrationHistory]"
  by (simp add: run_defs engine_def faulty_def resolve_def boot_def db_unreachable_def
      db_undiagnosed_def calls_def)

text \<open>
  C3. With an engine whose calls do not throw: on an up-to-date store two calls
  in sequence both resolve, leave the store as it is and never call
  \<^verbatim>\<open>applyMigrations\<close>; on a freshly created database (empty history, every
  migration of the lineage applicable) the first call leaves the history equal
  to the full lineage, with one \<^verbatim>\<open>applyMigrations\<close> call (none for an empty
  lineage), and the second call resolves, leaves the store as it is and only
  diagnoses.
\<close>

theorem migrations_idempotent:
  assumes "faults db = []"
    and "migrations url engine (boot db) = (s1, o1)"
    and "migrations url engine s1 = (s2, o2)"
  shows "(diagnose_db db = upToDate \<longrightarrow>
            o1 = Resolved \<and> o2 = Resolved \<and> world s1 = db \<and> world s2 = db \<and>
            ApplyMigrations \<notin> set (calls (trace s2))) \<and>
         (applied db = [] \<and> (\<forall>m\<in>set (lineage db). map_of (broken db) m = None) \<longrightarrow>
            o1 = Resolved \<and> applied (world s1) = lineage db \<and>
            calls (trace s1) =
              (if lineage db = []
               then [NewMigrate, EnsureDatabaseExists, DiagnoseMigrationHistory, Stop]
               else [NewMigrate, EnsureDatabaseExists, DiagnoseMigrationHistory,
                     ApplyMigrations, Stop]) \<and>
            o2 = Resolved \<and> world s2 = world s1 \<and>
            calls (trace s2) = calls (trace s1) @
              [NewMigrate, EnsureDatabaseExists, DiagnoseMigrationHistory, Stop])"
proof (intro conjI impI)
  assume up: "diagnose_db db = upToDate"
  have b: "world (boot db) = db" "calls (trace (boot db)) = []"
    by (simp_all add: boot_def calls_def)
  have 1: "o1 = Resolved \<and> world s1 = db \<and>
      calls (trace s1) = [NewMigrate, EnsureDatabaseExists, DiagnoseMigrationHistory, Stop]"
    using run_again [of "boot db" url s1 o1] assms(1,2) up b by simp
  then have 2: "o2 = Resolved \<and> world s2 = db \<and>
      calls (trace s2) = calls (trace s1) @
        [NewMigrate, EnsureDatabaseExists, DiagnoseMigrationHistory, Stop]"
    using run_again [of s1 url s2 o2] assms(1,3) up by simp
  show "o1 = Resolved" "world s1 = db" using 1 by simp_all
  show "o2 = Resolved" "world s2 = db" using 2 by simp_all
  show "ApplyMigrations \<notin> set (calls (trace s2))" using 1 2 by simp
next
  assume fresh: "applied db = [] \<and> (\<forall>m\<in>set (lineage db). map_of (broken db) m = None)"
  have b: "world (boot db) = db" "calls (trace (boot db)) = []"
    by (simp_all add: boot_def calls_def)
  have 1: "o1 = Resolved \<and> world s1 = db\<lparr>applied := lineage db\<rparr> \<and>
      calls (trace s1) =
        (if lineage db = []
         then [NewMigrate, EnsureDatabaseExists, DiagnoseMigrationHistory, Stop]
         else [NewMigrate, EnsureDatabaseExists, DiagnoseMigrationHistory,
               ApplyMigrations, Stop])"
  proof (cases "lineage db = []")
    case True
    with fresh have "diagnose_db db = upToDate" by (simp add: diagnose_db_def)
    from run_again [of "boot db" url s1 o1] this assms(1,2) b True fresh
    show ?thesis by simp
  next
    case False
    with fresh have "diagnose_db db = behind" by (simp add: diagnose_db_def)
    from run_complete [of "boot db" url] this assms(1,2) b fresh False
    show ?thesis by (auto simp: fresh_pending calls_append calls_apply boot_def)
  qed
  have "faults (world s1) = []" "diagnose_db (world s1) = upToDate"
    using 1 assms(1) by (simp_all add: diagnose_db_def)
  from run_again [OF this assms(3)]
  have 2: "o2 = Resolved \<and> world s2 = world s1 \<and>
      calls (trace s2) = calls (trace s1) @
        [NewMigrate, EnsureDatabaseExists, DiagnoseMigrationHistory, Stop]" .
  show "o1 = Resolved" "applied (world s1) = lineage db"
    "calls (trace s1) =
        (if lineage db = []
         then [NewMigrate, EnsureDatabaseExists, DiagnoseMigrationHistory, Stop]
         else [NewMigrate, EnsureDatabaseExists, DiagnoseMigrationHistory,
               ApplyMigrations, Stop])"
    using 1 by simp_all
  show "o2 = Resolved" "world s2 = world s1"
    "calls (trace s2) = calls (trace s1) @
              [NewMigrate, EnsureDatabaseExists, DiagnoseMigrationHistory, Stop]"
    using 2 by simp_all
qed

theorem migrations_idempotent_witness:
  "(diagnose_db db_current = upToDate \<and>
    snd (migrations None engine (boot db_current)) = Resolved \<and>
    world (fst (migrations None engine (fst (migrations None engine (boot db_current))))) = db_current \<and>
    ApplyMigrations \<notin> set (calls (trace
      (fst (migrations None engine (fst (migrations None engine (boot db_current)))))))) \<and>
   (applied db_fresh = [] \<and>
    applied (world (fst (migrations None engine (boot db_fresh)))) =
      [''20220101_init'', ''20220201_urls''] \<and>
    calls (trace (fst (migrations None engine (fst (migrations None engine (boot db_fresh)))))) =
      [NewMigrate, EnsureDatabaseExists, DiagnoseMigrationHistory, ApplyMigrations, Stop,
       NewMigrate, EnsureDatabaseExists, DiagnoseMigrationHistory, Stop])"
proof -
  have c: "faults db_current = []" "diagnose_db db_current = upToDate"
    by (simp_all add: db_current_def db_fresh_def diagnose_db_def)
  have f: "faults db_fresh = []" "applied db_fresh = []"
    "\<forall>m\<in>set (lineage db_fresh). map_of (broken db_fresh) m = None"
    "lineage db_fresh = [''20220101_init'', ''20220201_urls'']"
    by (simp_all add: db_fresh_def)
  have p: "\<And>x. x = (fst x, snd x)" by simp
  show ?thesis
    using migrations_idempotent [OF c(1) p p, of None]
      migrations_idempotent [OF f(1) p p, of None] c f
    by simp
qed

text \<open>
  C4. When the \<^verbatim>\<open>try\<close> block of \<^verbatim>\<open>migrations()\<close> throws \<open>error\<close>, the
  process exits with status 1, after one report: if
  \<^verbatim>\<open>error.message\<close> starts with \<^verbatim>\<open>P1001\<close>, the single line naming the
  configured connection string; otherwise the generic line followed by the
  error itself.
\<close>

theorem migrations_failure_report:
  assumes "migrations_try migrate s = (s', Inl error)"
  shows "snd (migrations (Some url) migrate s) = Exited 1 \<and>
    trace (fst (migrations (Some url) migrate s)) = trace s' @
      (if startsWith (message error) ''P1001''
       then [Log logger Error (Text
               (''Unable to connect to database `'' @ url @ ''`, check your database connection''))]
       else [Log logger Error (Text ''Failed to migrate database... exiting...''),
             Log logger Error (ErrorObject error)])
      @ [ProcessExit 1]"
  using assms
  by (simp add: migrations_def migrations_catch_def process_exit_def await_def logger_error_def
      unable_to_connect_def template_of_def)

theorem migrations_failure_report_witness:
  "snd (migrations (Some ''postgres://zipline@db/zipline'') engine (boot db_unreachable)) = Exited 1 \<and>
   drop 4 (trace (fst (migrations (Some ''postgres://zipline@db/zipline'') engine
      (boot db_unreachable)))) =
     [Log logger Error (Text
        ''Unable to connect to database `postgres://zipline@db/zipline`, check your database connection''),
      ProcessExit 1] \<and>
   snd (migrations (Some ''postgres://zipline@db/zipline'') engine (boot db_broken)) = Exited 1 \<and>
   drop 10 (trace (fst (migrations (Some ''postgres://zipline@db/zipline'') engine
      (boot db_broken)))) =
     [Log logger Error (Text ''Failed to migrate database... exiting...''),
      Log logger Error (ErrorObject \<lparr>message = ''P3018: migration failed to apply''\<rparr>),
      ProcessExit 1]"
proof -
  have u: "migrations_try engine (boot db_unreachable) =
      (\<lparr>world = db_unreachable,
        trace = [Log logger Debug (Text ''establishing database connection''),
                 Call NewMigrate,
                 Log logger Debug (Text
        ''ensuring database exists, if not creating database - may error if no permissions''),
                 Call EnsureDatabaseExists]\<rparr>,
       Inl \<lparr>message = ''P1001: Cannot reach database server''\<rparr>)"
    by (simp add: migrations_try_def await_def invoke_def logger_debug_def engine_def faulty_def
        resolve_def boot_def db_unreachable_def)
  have k: "faults (world (boot db_broken)) = []" "diagnose_db (world (boot db_broken)) = behind"
    "apply_pending (broken (world (boot db_broken))) (applied (world (boot db_broken)))
       (pending (world (boot db_broken))) =
     ([''20220101_init''], Some \<lparr>message = ''P3018: migration failed to apply''\<rparr>)"
    by (simp_all add: boot_def db_broken_def diagnose_db_def pending_def)
  have b: "migrations_try engine (boot db_broken) =
      ((boot db_broken)\<lparr>world := (world (boot db_broken))\<lparr>applied := [''20220101_init'']\<rparr>,
         trace := trace (boot db_broken) @ apply_trace\<rparr>,
       Inl \<lparr>message = ''P3018: migration failed to apply''\<rparr>)"
    using run_behind [OF k] by simp
  show ?thesis
    using migrations_failure_report [OF u, of "''postgres://zipline@db/zipline''"]
      migrations_failure_report [OF b, of "''postgres://zipline@db/zipline''"]
    by (simp add: startsWith_def boot_def apply_trace_def)
qed

text \<open>
  C5. When the diagnosis is \<open>behind\<close> (and no engine call but the application
  itself can throw), \<^verbatim>\<open>migrations()\<close> calls \<^verbatim>\<open>applyMigrations\<close> once and
  then \<^verbatim>\<open>stop\<close>. If every pending migration applies, the function resolves
  and the history is the full lineage. If the pending migrations are
  \<open>pre @ m # post\<close> and \<open>m\<close> is the first that fails, the process exits with
  status 1 and the history is the old one followed by \<open>pre\<close>: what was applied
  stays applied, in lineage order, and nothing after \<open>m\<close> is applied.
\<close>

theorem migrations_behind:
  assumes "faults db = []" and "diagnose_db db = behind"
    and "migrations (Some url) engine (boot db) = (s', out)"
  shows "calls (trace s') =
      [NewMigrate, EnsureDatabaseExists, DiagnoseMigrationHistory, ApplyMigrations, Stop] \<and>
    ((\<forall>m\<in>set (pending db). map_of (broken db) m = None) \<longrightarrow>
       out = Resolved \<and> applied (world s') = lineage db) \<and>
    (\<forall>pre m post e.
       pending db = pre @ m # post \<and> (\<forall>x\<in>set pre. map_of (broken db) x = None) \<and>
       map_of (broken db) m = Some e \<longrightarrow>
       out = Exited 1 \<and> last (trace s') = ProcessExit 1 \<and>
       applied (world s') = applied db @ pre \<and>
       lineage db = applied (world s') @ m # post)"
proof -
  have b: "world (boot db) = db" "trace (boot db) = []"
    by (simp_all add: boot_def)
  obtain hist r where ap: "apply_pending (broken db) (applied db) (pending db) = (hist, r)"
    by (cases "apply_pending (broken db) (applied db) (pending db)")
  have t: "migrations_try engine (boot db) =
      ((boot db)\<lparr>world := db\<lparr>applied := hist\<rparr>, trace := apply_trace\<rparr>,
       case r of None \<Rightarrow> Inr () | Some e \<Rightarrow> Inl e)"
    using run_behind [of "boot db" hist r] assms(1,2) ap b by simp
  have "calls (trace s') =
      [NewMigrate, EnsureDatabaseExists, DiagnoseMigrationHistory, ApplyMigrations, Stop]"
    using t assms(3)
    by (cases r)
      (auto simp: migrations_def migrations_catch_def process_exit_def await_def logger_error_def
        calls_append calls_apply calls_simps)
  moreover have "out = Resolved \<and> applied (world s') = lineage db"
    if "\<forall>m\<in>set (pending db). map_of (broken db) m = None"
    using run_complete [of "boot db" "Some url"] assms that b by auto
  moreover have "out = Exited 1 \<and> last (trace s') = ProcessExit 1 \<and>
       applied (world s') = applied db @ pre \<and> lineage db = applied (world s') @ m # post"
    if "pending db = pre @ m # post \<and> (\<forall>x\<in>set pre. map_of (broken db) x = None) \<and>
       map_of (broken db) m = Some e" for pre m post e
    using run_partial [of "boot db" pre m post e url] assms that b behind_pending [OF assms(2)]
    by auto
  ultimately show ?thesis by blast
qed

theorem migrations_behind_witness:
  "diagnose_db db_fresh = behind \<and>
   snd (migrations (Some ''postgres://zipline@db/zipline'') engine (boot db_fresh)) = Resolved \<and>
   applied (world (fst (migrations (Some ''postgres://zipline@db/zipline'') engine (boot db_fresh))))
     = [''20220101_init'', ''20220201_urls''] \<and>
   diagnose_db db_broken = behind \<and>
   pending db_broken = [''20220101_init''] @ ''20220201_urls'' # [] \<and>
   snd (migrations (Some ''postgres://zipline@db/zipline'') engine (boot db_broken)) = Exited 1 \<and>
   applied (world (fst (migrations (Some ''postgres://zipline@db/zipline'') engine (boot db_broken))))
     = [''20220101_init'']"
proof -
  have f: "faults db_fresh = []" "diagnose_db db_fresh = behind"
    "\<forall>m\<in>set (pending db_fresh). map_of (broken db_fresh) m = None"
    "lineage db_fresh = [''20220101_init'', ''20220201_urls'']"
    by (simp_all add: db_fresh_def diagnose_db_def pending_def)
  have k: "faults db_broken = []" "diagnose_db db_broken = behind"
    "pending db_broken = [''20220101_init''] @ ''20220201_urls'' # [] \<and>
     (\<forall>x\<in>set [''20220101_init'']. map_of (broken db_broken) x = None) \<and>
     map_of (broken db_broken) ''20220201_urls'' =
       Some \<lparr>message = ''P3018: migration failed to apply''\<rparr>"
    "applied db_broken = []"
    by (simp_all add: db_broken_def diagnose_db_def pending_def)
  have p: "\<And>x. x = (fst x, snd x)" by simp
  have 1: "snd (migrations (Some ''postgres://zipline@db/zipline'') engine (boot db_fresh)) = Resolved \<and>
    applied (world (fst (migrations (Some ''postgres://zipline@db/zipline'') engine (boot db_fresh))))
     = [''20220101_init'', ''20220201_urls'']"
    using migrations_behind [OF f(1,2) p, of "''postgres://zipline@db/zipline''"] f(3,4)
    by simp
  have 2: "snd (migrations (Some ''postgres://zipline@db/zipline'') engine (boot db_broken)) = Exited 1 \<and>
    applied (world (fst (migrations (Some ''postgres://zipline@db/zipline'') engine (boot db_broken))))
     = applied db_broken @ [''20220101_init'']"
    using migrations_behind [OF k(1,2) p, of "''postgres://zipline@db/zipline''",
        THEN conjunct2, THEN conjunct2, THEN spec, THEN spec, THEN spec, THEN spec, THEN mp, OF k(3)]
    by simp
  show ?thesis
    using 1 2 f(2) k(2) k(3) by (simp add: k(4))
qed

section \<open>Properties of the statistics aggregator\<close>

subsection \<open>Sorting\<close>

lemma insert_sorted_insort_key:
  fixes f :: "'a \<Rightarrow> int"
  shows "insert_sorted (\<lambda>a b. f b - f a) x ys = insort_key (\<lambda>a. - f a) x ys"
  by (induction ys) simp_all

lemma sort_js_sort_key:
  fixes f :: "'a \<Rightarrow> int"
  shows "sort_js (\<lambda>a b. f b - f a) xs = sort_key (\<lambda>a. - f a) xs"
  by (induction xs) (simp_all add: sort_js_def insert_sorted_insort_key)

lemma sort_js_descending:
  fixes f :: "'a \<Rightarrow> int"
  shows "sorted_wrt (\<lambda>x y. f y \<le> f x) (sort_js (\<lambda>a b. f b - f a) xs)"
proof -
  have "sorted (map (\<lambda>a. - f a) (sort_key (\<lambda>a. - f a) xs))"
    by (rule sorted_sort_key)
  then show ?thesis
    by (simp add: sort_js_sort_key sorted_map)
qed

lemma sort_js_stable:
  fixes f :: "'a \<Rightarrow> int"
  shows "filter (\<lambda>x. f x = k) (sort_js (\<lambda>a b. f b - f a) xs) = filter (\<lambda>x. f x = k) xs"
  using sort_key_stable [of "\<lambda>a. - f a" "- k" xs] by (simp add: sort_js_sort_key)

lemma mset_sort_js:
  fixes f :: "'a \<Rightarrow> int"
  shows "mset (sort_js (\<lambda>a b. f b - f a) xs) = mset xs"
  by (simp add: sort_js_sort_key)

lemma length_filter_mset:
  "mset xs = mset ys \<Longrightarrow> length (filter P xs) = length (filter P ys)"
  by (metis mset_filter size_mset)

lemma mset_remdups_map:
  assumes "mset xs = mset ys"
  shows "mset (remdups (map f xs)) = mset (remdups (map f ys))"
proof -
  have "set (map f xs) = set (map f ys)"
    using mset_eq_setD [OF assms] by simp
  then have "mset_set (set (remdups (map f xs))) = mset_set (set (remdups (map f ys)))"
    by simp
  then show ?thesis
    by (simp only: mset_set_set [OF distinct_remdups])
qed

lemma sort_js_keys:
  fixes f :: "'a \<Rightarrow> int"
  assumes "mset (map f xs) = mset (map f ys)"
  shows "map f (sort_js (\<lambda>a b. f b - f a) xs) = map f (sort_js (\<lambda>a b. f b - f a) ys)"
proof -
  let ?g = "\<lambda>a. - f a"
  have k: "map ?g (sort_key ?g zs) = sort (map ?g zs)" for zs
    by (rule properties_for_sort [symmetric]) (simp_all add: sorted_sort_key)
  have "mset (map ?g xs) = image_mset uminus (mset (map f xs))"
    by (simp add: multiset.map_comp comp_def)
  also have "\<dots> = image_mset uminus (mset (map f ys))"
    by (simp only: assms)
  also have "\<dots> = mset (map ?g ys)"
    by (simp add: multiset.map_comp comp_def)
  finally have "sort (map ?g xs) = sort (map ?g ys)"
    by (metis properties_for_sort mset_sort sorted_sort)
  then have "map ?g (sort_key ?g xs) = map ?g (sort_key ?g ys)"
    by (simp only: k)
  then have "map uminus (map ?g (sort_key ?g xs)) = map uminus (map ?g (sort_key ?g ys))"
    by simp
  then show ?thesis
    by (simp add: sort_js_sort_key comp_def)
qed

subsection \<open>The loops\<close>

lemma types_count_loop_map:
  "types_count_loop gs acc =
     acc @ map (\<lambda>g. \<lparr>t_mimetype = g_mimetype g, t_count = g_count_mimetype g\<rparr>) gs"
  by (induction gs arbitrary: acc) simp_all

lemma count_by_user_loop_counts:
  "count_by_user_loop prisma gs acc w = (w', Inr es) \<Longrightarrow>
   map u_count es = map u_count acc @ map g_count_all gs"
proof (induction gs arbitrary: acc w)
  case Nil
  then show ?case by simp
next
  case (Cons g gs)
  then show ?case
    by (auto split: prod.splits sum.splits option.splits)
qed


subsection \<open>A report comes from seven successful queries\<close>

lemma getStats_report:
  assumes "getStats b prisma datasource w = (w', Inr r)"
  shows "\<exists>w1 w2 w3 w4 w5 w6 sz byUser cu entries cnt vw typesCount.
    fullSize datasource w = (w1, Inr sz) \<and>
    image_groupBy_userId prisma w1 = (w2, Inr byUser) \<and>
    user_count prisma w2 = (w3, Inr cu) \<and>
    count_by_user_loop prisma byUser [] w3 = (w4, Inr entries) \<and>
    image_count prisma w4 = (w5, Inr cnt) \<and>
    image_aggregate_sum_views prisma w5 = (w6, Inr vw) \<and>
    image_groupBy_mimetype prisma w6 = (w', Inr typesCount) \<and>
    r = \<lparr>size_str = b sz, size_num = sz, count_num = cnt,
         count_by_user = sort_js (\<lambda>a b. u_count b - u_count a) entries,
         count_users = cu,
         views_count = (case vw of None \<Rightarrow> 0 | Some v \<Rightarrow> v),
         types_count = sort_js (\<lambda>a b. t_count b - t_count a) (types_count_loop typesCount [])\<rparr>"
  using assms unfolding getStats_def await_def resolve_def
  by (auto split: prod.splits sum.splits)

subsection \<open>Clients that only read\<close>

lemma await_fst:
  "fst (m w) = w \<Longrightarrow> (\<And>x. fst (f x w) = w) \<Longrightarrow> fst (await m f w) = w"
  by (cases "m w") (auto simp: await_def split: sum.splits)

lemma count_by_user_loop_fst:
  "(\<And>k w. fst (user_findFirst prisma k w) = w) \<Longrightarrow>
   fst (count_by_user_loop prisma gs acc w) = w"
proof (induction gs arbitrary: acc)
  case Nil
  then show ?case by simp
next
  case (Cons g gs)
  from Cons.prems [of "g_userId g" w] Cons.IH [OF Cons.prems]
  show ?case
    by (cases "user_findFirst prisma (g_userId g) w")
      (auto split: sum.splits option.splits)
qed

lemma getStats_fst:
  assumes "read_only prisma datasource"
  shows "fst (getStats b prisma datasource w) = w"
  using assms unfolding getStats_def read_only_def
  by (intro await_fst count_by_user_loop_fst) (simp_all add: resolve_def)


lemma await_read:
  "fst (m w) = w \<Longrightarrow>
   await m f w = (case snd (m w) of Inl e \<Rightarrow> (w, Inl e) | Inr x \<Rightarrow> f x w)"
  by (cases "m w") (simp add: await_def)

lemma count_by_user_loop_fails:
  assumes "\<And>k w. fst (user_findFirst prisma k w) = w"
    and "\<exists>g\<in>set gs. isl (snd (user_findFirst prisma (g_userId g) w))"
  shows "isl (snd (count_by_user_loop prisma gs acc w))"
  using assms(2)
proof (induction gs arbitrary: acc)
  case Nil
  then show ?case by simp
next
  case (Cons g gs)
  show ?case
  proof (cases "snd (user_findFirst prisma (g_userId g) w)")
    case (Inl e)
    with assms(1) [of "g_userId g" w] show ?thesis
      by (cases "user_findFirst prisma (g_userId g) w") simp
  next
    case (Inr u)
    with Cons.prems have "\<exists>g\<in>set gs. isl (snd (user_findFirst prisma (g_userId g) w))"
      by auto
    from Cons.IH [OF this] Inr assms(1) [of "g_userId g" w] show ?thesis
      by (cases "user_findFirst prisma (g_userId g) w") (simp split: option.splits)
  qed
qed

lemma getStats_fails:
  assumes "read_only prisma datasource" and "some_query_fails prisma datasource w"
  shows "isl (snd (getStats b prisma datasource w))"
proof -
  have r: "fst (fullSize datasource w) = w" "fst (image_groupBy_userId prisma w) = w"
    "fst (user_count prisma w) = w" "\<And>k w. fst (user_findFirst prisma k w) = w"
    "fst (image_count prisma w) = w" "fst (image_aggregate_sum_views prisma w) = w"
    "fst (image_groupBy_mimetype prisma w) = w"
    using assms(1) by (simp_all add: read_only_def)
  have l: "\<And>gs. fst (count_by_user_loop prisma gs [] w) = w"
    by (rule count_by_user_loop_fst) (rule r(4))
  show ?thesis
    using assms(2) count_by_user_loop_fails [OF r(4), of _ w "[]"]
    unfolding getStats_def some_query_fails_def
    by (auto simp: await_read r l resolve_def isl_def split: sum.splits)
      (metis Inl_Inr_False)
qed

subsection \<open>The client on a store\<close>

lemma store_sel:
  "fullSize store_datasource = query occupied"
  "image_groupBy_userId store_client = query (\<lambda>st. groupBy_userId (images st))"
  "user_count store_client = query (\<lambda>st. int (length (users st)))"
  "user_findFirst store_client k = query (\<lambda>st. find (\<lambda>u. user_id u = k) (users st))"
  "image_count store_client = query (\<lambda>st. int (length (images st)))"
  "image_aggregate_sum_views store_client = query (\<lambda>st. sum_views (images st))"
  "image_groupBy_mimetype store_client = query (\<lambda>st. groupBy_mimetype (images st))"
  by (simp_all add: store_client_def store_datasource_def)

lemma store_read_only: "read_only store_client store_datasource"
  by (simp add: read_only_def store_sel query_def)

lemma await_query: "await (query f) g w = g (f w) w"
  by (simp add: await_def query_def)

lemma await_Inr: "m w = (w', Inr x) \<Longrightarrow> await m f w = f x w'"
  by (simp add: await_def)

lemma await_Inl: "m w = (w', Inl e) \<Longrightarrow> await m f w = (w', Inl e)"
  by (simp add: await_def)

lemma find_None_iff_user: "find (\<lambda>u. user_id u = k) us = None \<longleftrightarrow> \<not> (\<exists>u\<in>set us. user_id u = k)"
  by (induction us) auto

lemma store_loop_ok:
  assumes "\<forall>g\<in>set gs. \<exists>u\<in>set (users st). user_id u = g_userId g"
  shows "count_by_user_loop store_client gs acc st =
    (st, Inr (acc @ map (\<lambda>g. \<lparr>u_username = owner_name st (g_userId g),
                               u_count = g_count_all g\<rparr>) gs))"
  using assms
proof (induction gs arbitrary: acc)
  case Nil
  then show ?case by simp
next
  case (Cons g gs)
  then obtain u where "find (\<lambda>u. user_id u = g_userId g) (users st) = Some u"
    using find_None_iff_user [of "g_userId g" "users st"] by fastforce
  with Cons show ?case
    by (simp add: store_sel query_def owner_name_def)
qed

lemma store_loop_null:
  assumes "\<exists>g\<in>set gs. \<not> (\<exists>u\<in>set (users st). user_id u = g_userId g)"
  shows "count_by_user_loop store_client gs acc st = (st, Inl TypeError_null)"
  using assms
proof (induction gs arbitrary: acc)
  case Nil
  then show ?case by simp
next
  case (Cons g gs)
  show ?case
  proof (cases "find (\<lambda>u. user_id u = g_userId g) (users st)")
    case None
    then show ?thesis by (simp add: store_sel query_def)
  next
    case (Some u)
    then have "\<exists>u\<in>set (users st). user_id u = g_userId g"
      using find_None_iff_user [of "g_userId g" "users st"] by simp
    with Cons.prems have "\<exists>g\<in>set gs. \<not> (\<exists>u\<in>set (users st). user_id u = g_userId g)"
      by auto
    from Cons.IH [OF this] Some show ?thesis
      by (simp add: store_sel query_def)
  qed
qed

lemma store_getStats_ok:
  assumes "\<forall>i\<in>set (images st). \<exists>u\<in>set (users st). user_id u = userId i"
  shows "getStats b store_client store_datasource st =
    (st, Inr \<lparr>size_str = b (occupied st), size_num = occupied st,
         count_num = int (length (images st)),
         count_by_user = sort_js (\<lambda>a b. u_count b - u_count a)
           (map (owner_entry st) (remdups (map userId (images st)))),
         count_users = int (length (users st)),
         views_count = sum_list (map views (images st)),
         types_count = sort_js (\<lambda>a b. t_count b - t_count a)
           (map (type_entry st) (remdups (map mimetype (images st))))\<rparr>)"
proof -
  have "\<forall>g\<in>set (groupBy_userId (images st)). \<exists>u\<in>set (users st). user_id u = g_userId g"
    using assms by (auto simp: groupBy_userId_def)
  from store_loop_ok [OF this, of "[]"]
  have l: "count_by_user_loop store_client (groupBy_userId (images st)) [] st =
      (st, Inr (map (owner_entry st) (remdups (map userId (images st)))))"
    by (simp add: owner_entry_def groupBy_userId_def comp_def)
  have t: "types_count_loop (groupBy_mimetype (images st)) [] =
      map (type_entry st) (remdups (map mimetype (images st)))"
    by (simp add: types_count_loop_map groupBy_mimetype_def type_entry_def comp_def)
  have v: "(case sum_views (images st) of None \<Rightarrow> 0 | Some v \<Rightarrow> v) =
      sum_list (map views (images st))"
    by (simp add: sum_views_def)
  show ?thesis
    unfolding getStats_def
    by (simp add: store_sel await_query await_Inr [where m = "count_by_user_loop store_client (groupBy_userId (images st)) []" and w = st, OF l] t v resolve_def)
qed

lemma store_getStats_null:
  assumes "\<exists>i\<in>set (images st). \<not> (\<exists>u\<in>set (users st). user_id u = userId i)"
  shows "getStats b store_client store_datasource st = (st, Inl TypeError_null)"
proof -
  have "\<exists>g\<in>set (groupBy_userId (images st)). \<not> (\<exists>u\<in>set (users st). user_id u = g_userId g)"
    using assms by (auto simp: groupBy_userId_def)
  from store_loop_null [OF this, of "[]"]
  have l: "count_by_user_loop store_client (groupBy_userId (images st)) [] st =
      (st, Inl TypeError_null)" .
  show ?thesis
    unfolding getStats_def
    by (simp add: store_sel await_query await_Inl [where m = "count_by_user_loop store_client (groupBy_userId (images st)) []" and w = st, OF l])
qed


lemma store_getStats_report:
  assumes "getStats b store_client store_datasource st = (st', Inr r)"
  shows "\<forall>i\<in>set (images st). \<exists>u\<in>set (users st). user_id u = userId i"
proof (rule ccontr)
  assume "\<not> ?thesis"
  then have "\<exists>i\<in>set (images st). \<not> (\<exists>u\<in>set (users st). user_id u = userId i)"
    by simp
  from store_getStats_null [OF this, of b] assms show False by simp
qed

lemma sum_list_map_mset:
  fixes f :: "'a \<Rightarrow> int"
  shows "mset xs = mset ys \<Longrightarrow> sum_list (map f xs) = sum_list (map f ys)"
  by (metis mset_map sum_mset_sum_list)

lemma store_counts_mset:
  assumes "mset (images st2) = mset (images st)"
  shows "u_count (owner_entry st2 k) = u_count (owner_entry st k)"
    and "type_entry st2 m = type_entry st m"
    and "users st2 = users st \<Longrightarrow> owner_entry st2 k = owner_entry st k"
  using length_filter_mset [OF assms]
  by (simp_all add: owner_entry_def type_entry_def owner_name_def)

lemma store_entries_mset:
  assumes "mset (images st2) = mset (images st)"
  shows "mset (map u_count (map (owner_entry st2) (remdups (map userId (images st2))))) =
         mset (map u_count (map (owner_entry st) (remdups (map userId (images st)))))"
    and "mset (map (type_entry st2) (remdups (map mimetype (images st2)))) =
         mset (map (type_entry st) (remdups (map mimetype (images st))))"
    and "users st2 = users st \<Longrightarrow>
         mset (map (owner_entry st2) (remdups (map userId (images st2)))) =
         mset (map (owner_entry st) (remdups (map userId (images st))))"
proof -
  have o: "mset (remdups (map userId (images st2))) = mset (remdups (map userId (images st)))"
    and t: "mset (remdups (map mimetype (images st2))) = mset (remdups (map mimetype (images st)))"
    using assms by (rule mset_remdups_map)+
  have "(\<lambda>k. u_count (owner_entry st2 k)) = (\<lambda>k. u_count (owner_entry st k))"
    using store_counts_mset(1) [OF assms] by (rule ext)
  then show "mset (map u_count (map (owner_entry st2) (remdups (map userId (images st2))))) =
         mset (map u_count (map (owner_entry st) (remdups (map userId (images st)))))"
    using o by (simp add: comp_def)
  have "type_entry st2 = type_entry st"
    using store_counts_mset(2) [OF assms] by (rule ext)
  then show "mset (map (type_entry st2) (remdups (map mimetype (images st2)))) =
         mset (map (type_entry st) (remdups (map mimetype (images st))))"
    using t by simp
  show "mset (map (owner_entry st2) (remdups (map userId (images st2)))) =
         mset (map (owner_entry st) (remdups (map userId (images st))))"
    if "users st2 = users st"
  proof -
    have "owner_entry st2 = owner_entry st"
      using store_counts_mset(3) [OF assms that] by (rule ext)
    then show ?thesis
      using o by simp
  qed
qed

lemma store_runs_mset:
  assumes "getStats b store_client store_datasource st = (st', Inr r)"
    and "getStats b store_client store_datasource st2 = (st2', Inr r2)"
    and "mset (images st2) = mset (images st)"
  shows "map u_count (count_by_user r2) = map u_count (count_by_user r)"
    and "map t_count (types_count r2) = map t_count (types_count r)"
    and "mset (types_count r2) = mset (types_count r)"
    and "users st2 = users st \<Longrightarrow> mset (count_by_user r2) = mset (count_by_user r)"
proof -
  have r: "count_by_user r = sort_js (\<lambda>a b. u_count b - u_count a)
        (map (owner_entry st) (remdups (map userId (images st))))"
      "types_count r = sort_js (\<lambda>a b. t_count b - t_count a)
        (map (type_entry st) (remdups (map mimetype (images st))))"
    using store_getStats_ok [OF store_getStats_report [OF assms(1)], of b] assms(1) by auto
  have r2: "count_by_user r2 = sort_js (\<lambda>a b. u_count b - u_count a)
        (map (owner_entry st2) (remdups (map userId (images st2))))"
      "types_count r2 = sort_js (\<lambda>a b. t_count b - t_count a)
        (map (type_entry st2) (remdups (map mimetype (images st2))))"
    using store_getStats_ok [OF store_getStats_report [OF assms(2)], of b] assms(2) by auto
  note e = store_entries_mset [OF assms(3)]
  show "map u_count (count_by_user r2) = map u_count (count_by_user r)"
    unfolding r r2 by (rule sort_js_keys) (rule e(1))
  have "mset (map t_count (map (type_entry st2) (remdups (map mimetype (images st2))))) =
      mset (map t_count (map (type_entry st) (remdups (map mimetype (images st)))))"
    using e(2) by (metis mset_map)
  then show "map t_count (types_count r2) = map t_count (types_count r)"
    unfolding r r2 by (rule sort_js_keys)
  show "mset (types_count r2) = mset (types_count r)"
    unfolding r r2 by (simp only: mset_sort_js e(2))
  show "mset (count_by_user r2) = mset (count_by_user r)" if "users st2 = users st"
    unfolding r r2 by (simp only: mset_sort_js e(3) [OF that])
qed

lemma tie_runs:
  "getStats (\<lambda>n. ''2.0 kB'') store_client store_datasource tie_store =
     (tie_store,
      Inr \<lparr>size_str = ''2.0 kB'', size_num = 2048, count_num = 2,
           count_by_user = [\<lparr>u_username = ''A'', u_count = 1\<rparr>, \<lparr>u_username = ''B'', u_count = 1\<rparr>],
           count_users = 2, views_count = 0,
           types_count = [\<lparr>t_mimetype = ''image/png'', t_count = 1\<rparr>,
                          \<lparr>t_mimetype = ''text/plain'', t_count = 1\<rparr>]\<rparr>)"
  "getStats (\<lambda>n. ''2.0 kB'') store_client store_datasource tie_store_swapped =
     (tie_store_swapped,
      Inr \<lparr>size_str = ''2.0 kB'', size_num = 2048, count_num = 2,
           count_by_user = [\<lparr>u_username = ''B'', u_count = 1\<rparr>, \<lparr>u_username = ''A'', u_count = 1\<rparr>],
           count_users = 2, views_count = 0,
           types_count = [\<lparr>t_mimetype = ''text/plain'', t_count = 1\<rparr>,
                          \<lparr>t_mimetype = ''image/png'', t_count = 1\<rparr>]\<rparr>)"
  by (simp_all add: getStats_def await_def store_sel query_def tie_store_def tie_store_swapped_def
      groupBy_userId_def groupBy_mimetype_def sum_views_def resolve_def sort_js_def)

subsection \<open>The claims about \<^verbatim>\<open>getStats()\<close>\<close>

text \<open>
  C6, as amended. Whenever \<^verbatim>\<open>getStats\<close> returns a report, \<open>count_by_user\<close>
  and \<open>types_count\<close> are in descending order of count, and the entries of equal
  count stand in the order in which the grouping query produced their groups
  (for the users: the order of \<^verbatim>\<open>byUser\<close>, whose counts the entries carry).
  Two runs over stores that hold the same images return lists with the same
  sequence of counts and the same per-type entries, and, when the users are the
  same, the same per-user entries: only entries of equal count may stand in
  another order.
\<close>

theorem getStats_sorted:
  "(\<forall>w' r. getStats b prisma datasource w = (w', Inr r) \<longrightarrow>
      sorted_wrt (\<lambda>x y. u_count y \<le> u_count x) (count_by_user r) \<and>
      sorted_wrt (\<lambda>x y. t_count y \<le> t_count x) (types_count r) \<and>
      (\<exists>w1 w2 w3 w4 w5 w6 sz byUser cu entries cnt vw typesCount.
         fullSize datasource w = (w1, Inr sz) \<and>
         image_groupBy_userId prisma w1 = (w2, Inr byUser) \<and>
         user_count prisma w2 = (w3, Inr cu) \<and>
         count_by_user_loop prisma byUser [] w3 = (w4, Inr entries) \<and>
         image_count prisma w4 = (w5, Inr cnt) \<and>
         image_aggregate_sum_views prisma w5 = (w6, Inr vw) \<and>
         image_groupBy_mimetype prisma w6 = (w', Inr typesCount) \<and>
         map u_count entries = map g_count_all byUser \<and>
         (\<forall>k. filter (\<lambda>e. u_count e = k) (count_by_user r) =
              filter (\<lambda>e. u_count e = k) entries) \<and>
         (\<forall>k. filter (\<lambda>e. t_count e = k) (types_count r) =
              filter (\<lambda>e. t_count e = k)
                (map (\<lambda>g. \<lparr>t_mimetype = g_mimetype g, t_count = g_count_mimetype g\<rparr>)
                   typesCount)))) \<and>
   (\<forall>st st' r st2 st2' r2.
      getStats b store_client store_datasource st = (st', Inr r) \<and>
      getStats b store_client store_datasource st2 = (st2', Inr r2) \<and>
      mset (images st2) = mset (images st) \<longrightarrow>
      map u_count (count_by_user r2) = map u_count (count_by_user r) \<and>
      map t_count (types_count r2) = map t_count (types_count r) \<and>
      mset (types_count r2) = mset (types_count r) \<and>
      (users st2 = users st \<longrightarrow> mset (count_by_user r2) = mset (count_by_user r)))"
proof (intro conjI allI impI)
  fix w' r
  assume run: "getStats b prisma datasource w = (w', Inr r)"
  from getStats_report [OF run]
  obtain w1 w2 w3 w4 w5 w6 sz byUser cu entries cnt vw typesCount where
    q: "fullSize datasource w = (w1, Inr sz)"
       "image_groupBy_userId prisma w1 = (w2, Inr byUser)"
       "user_count prisma w2 = (w3, Inr cu)"
       "count_by_user_loop prisma byUser [] w3 = (w4, Inr entries)"
       "image_count prisma w4 = (w5, Inr cnt)"
       "image_aggregate_sum_views prisma w5 = (w6, Inr vw)"
       "image_groupBy_mimetype prisma w6 = (w', Inr typesCount)"
    and r: "r = \<lparr>size_str = b sz, size_num = sz, count_num = cnt,
         count_by_user = sort_js (\<lambda>a b. u_count b - u_count a) entries,
         count_users = cu,
         views_count = (case vw of None \<Rightarrow> 0 | Some v \<Rightarrow> v),
         types_count = sort_js (\<lambda>a b. t_count b - t_count a) (types_count_loop typesCount [])\<rparr>"
    by blast
  show "sorted_wrt (\<lambda>x y. u_count y \<le> u_count x) (count_by_user r)"
    by (simp add: r sort_js_descending)
  show "sorted_wrt (\<lambda>x y. t_count y \<le> t_count x) (types_count r)"
    by (simp add: r sort_js_descending)
  have 3: "map u_count entries = map g_count_all byUser"
    using count_by_user_loop_counts [OF q(4)] by simp
  have 4: "\<forall>k. filter (\<lambda>e. u_count e = k) (count_by_user r) =
      filter (\<lambda>e. u_count e = k) entries"
    by (simp add: r sort_js_stable)
  have 5: "\<forall>k. filter (\<lambda>e. t_count e = k) (types_count r) =
      filter (\<lambda>e. t_count e = k)
        (map (\<lambda>g. \<lparr>t_mimetype = g_mimetype g, t_count = g_count_mimetype g\<rparr>) typesCount)"
    by (simp add: r sort_js_stable types_count_loop_map)
  show "\<exists>w1 w2 w3 w4 w5 w6 sz byUser cu entries cnt vw typesCount.
         fullSize datasource w = (w1, Inr sz) \<and>
         image_groupBy_userId prisma w1 = (w2, Inr byUser) \<and>
         user_count prisma w2 = (w3, Inr cu) \<and>
         count_by_user_loop prisma byUser [] w3 = (w4, Inr entries) \<and>
         image_count prisma w4 = (w5, Inr cnt) \<and>
         image_aggregate_sum_views prisma w5 = (w6, Inr vw) \<and>
         image_groupBy_mimetype prisma w6 = (w', Inr typesCount) \<and>
         map u_count entries = map g_count_all byUser \<and>
         (\<forall>k. filter (\<lambda>e. u_count e = k) (count_by_user r) =
              filter (\<lambda>e. u_count e = k) entries) \<and>
         (\<forall>k. filter (\<lambda>e. t_count e = k) (types_count r) =
              filter (\<lambda>e. t_count e = k)
                (map (\<lambda>g. \<lparr>t_mimetype = g_mimetype g, t_count = g_count_mimetype g\<rparr>)
                   typesCount))"
    using q 3 4 5 by blast
next
  fix st st' r st2 st2' r2
  assume a: "getStats b store_client store_datasource st = (st', Inr r) \<and>
      getStats b store_client store_datasource st2 = (st2', Inr r2) \<and>
      mset (images st2) = mset (images st)"
  then have 1: "getStats b store_client store_datasource st = (st', Inr r)"
    and 2: "getStats b store_client store_datasource st2 = (st2', Inr r2)"
    and 3: "mset (images st2) = mset (images st)"
    by simp_all
  show "map u_count (count_by_user r2) = map u_count (count_by_user r)"
    by (rule store_runs_mset(1) [OF 1 2 3])
  show "map t_count (types_count r2) = map t_count (types_count r)"
    by (rule store_runs_mset(2) [OF 1 2 3])
  show "mset (types_count r2) = mset (types_count r)"
    by (rule store_runs_mset(3) [OF 1 2 3])
  show "mset (count_by_user r2) = mset (count_by_user r)" if "users st2 = users st"
    by (rule store_runs_mset(4) [OF 1 2 3 that])
qed

theorem getStats_sorted_witness:
  "getStats (\<lambda>n. ''2.0 kB'') store_client store_datasource tie_store =
     (tie_store,
      Inr \<lparr>size_str = ''2.0 kB'', size_num = 2048, count_num = 2,
           count_by_user = [\<lparr>u_username = ''A'', u_count = 1\<rparr>, \<lparr>u_username = ''B'', u_count = 1\<rparr>],
           count_users = 2, views_count = 0,
           types_count = [\<lparr>t_mimetype = ''image/png'', t_count = 1\<rparr>,
                          \<lparr>t_mimetype = ''text/plain'', t_count = 1\<rparr>]\<rparr>) \<and>
   getStats (\<lambda>n. ''2.0 kB'') store_client store_datasource tie_store_swapped =
     (tie_store_swapped,
      Inr \<lparr>size_str = ''2.0 kB'', size_num = 2048, count_num = 2,
           count_by_user = [\<lparr>u_username = ''B'', u_count = 1\<rparr>, \<lparr>u_username = ''A'', u_count = 1\<rparr>],
           count_users = 2, views_count = 0,
           types_count = [\<lparr>t_mimetype = ''text/plain'', t_count = 1\<rparr>,
                          \<lparr>t_mimetype = ''image/png'', t_count = 1\<rparr>]\<rparr>) \<and>
   mset (images tie_store_swapped) = mset (images tie_store) \<and>
   sorted_wrt (\<lambda>x y. u_count y \<le> u_count x)
     [\<lparr>u_username = ''A'', u_count = 1\<rparr>, \<lparr>u_username = ''B'', u_count = 1\<rparr>] \<and>
   map u_count [\<lparr>u_username = ''B'', u_count = 1\<rparr>, \<lparr>u_username = ''A'', u_count = 1\<rparr>] =
     map u_count [\<lparr>u_username = ''A'', u_count = 1\<rparr>, \<lparr>u_username = ''B'', u_count = 1\<rparr>] \<and>
   mset [\<lparr>u_username = ''B'', u_count = 1\<rparr>, \<lparr>u_username = ''A'', u_count = 1\<rparr>] =
     mset [\<lparr>u_username = ''A'', u_count = 1\<rparr>, \<lparr>u_username = ''B'', u_count = 1\<rparr>]"
proof -
  have m: "mset (images tie_store_swapped) = mset (images tie_store)"
    "users tie_store_swapped = users tie_store"
    by (simp_all add: tie_store_swapped_def)
  note t = getStats_sorted [of "\<lambda>n. ''2.0 kB''" store_client store_datasource tie_store]
  from t [THEN conjunct1, THEN spec, THEN spec, THEN mp, OF tie_runs(1)]
  have 1: "sorted_wrt (\<lambda>x y. u_count y \<le> u_count x)
     [\<lparr>u_username = ''A'', u_count = 1\<rparr>, \<lparr>u_username = ''B'', u_count = 1\<rparr>]"
    by simp
  from t [THEN conjunct2, THEN spec, THEN spec, THEN spec, THEN spec, THEN spec, THEN spec,
      THEN mp, OF conjI [OF tie_runs(1) conjI [OF tie_runs(2) m(1)]]] m(2)
  have 2: "map u_count [\<lparr>u_username = ''B'', u_count = 1\<rparr>, \<lparr>u_username = ''A'', u_count = 1\<rparr>] =
     map u_count [\<lparr>u_username = ''A'', u_count = 1\<rparr>, \<lparr>u_username = ''B'', u_count = 1\<rparr>] \<and>
   mset [\<lparr>u_username = ''B'', u_count = 1\<rparr>, \<lparr>u_username = ''A'', u_count = 1\<rparr>] =
     mset [\<lparr>u_username = ''A'', u_count = 1\<rparr>, \<lparr>u_username = ''B'', u_count = 1\<rparr>]"
    by simp
  from 1 2 m(1) tie_runs show ?thesis by simp
qed

text \<open>
  C6, as stated, fails: the same rows met in another order are grouped in
  another order, and the two users, who have one image each, change places in
  \<open>count_by_user\<close>, as the two content types do in \<open>types_count\<close>.
\<close>

theorem getStats_tie_counterexample:
  "mset (images tie_store_swapped) = mset (images tie_store) \<and>
   users tie_store_swapped = users tie_store \<and>
   occupied tie_store_swapped = occupied tie_store \<and>
   getStats (\<lambda>n. ''2.0 kB'') store_client store_datasource tie_store =
     (tie_store,
      Inr \<lparr>size_str = ''2.0 kB'', size_num = 2048, count_num = 2,
           count_by_user = [\<lparr>u_username = ''A'', u_count = 1\<rparr>, \<lparr>u_username = ''B'', u_count = 1\<rparr>],
           count_users = 2, views_count = 0,
           types_count = [\<lparr>t_mimetype = ''image/png'', t_count = 1\<rparr>,
                          \<lparr>t_mimetype = ''text/plain'', t_count = 1\<rparr>]\<rparr>) \<and>
   getStats (\<lambda>n. ''2.0 kB'') store_client store_datasource tie_store_swapped =
     (tie_store_swapped,
      Inr \<lparr>size_str = ''2.0 kB'', size_num = 2048, count_num = 2,
           count_by_user = [\<lparr>u_username = ''B'', u_count = 1\<rparr>, \<lparr>u_username = ''A'', u_count = 1\<rparr>],
           count_users = 2, views_count = 0,
           types_count = [\<lparr>t_mimetype = ''text/plain'', t_count = 1\<rparr>,
                          \<lparr>t_mimetype = ''image/png'', t_count = 1\<rparr>]\<rparr>) \<and>
   snd (getStats (\<lambda>n. ''2.0 kB'') store_client store_datasource tie_store) \<noteq>
   snd (getStats (\<lambda>n. ''2.0 kB'') store_client store_datasource tie_store_swapped)"
  by (simp add: tie_runs) (simp add: tie_store_swapped_def)

text \<open>
  C7. On a store, whenever \<^verbatim>\<open>getStats\<close> returns a report, its \<open>views_count\<close>
  is the sum of the view counters of all the images; with no images the
  aggregate has no sum and \<open>views_count\<close> is 0; and a store holding the same
  images in another order gets the same \<open>views_count\<close>.
\<close>

theorem getStats_views_count:
  assumes "getStats b store_client store_datasource st = (st', Inr r)"
  shows "views_count r = sum_list (map views (images st)) \<and>
    (images st = [] \<longrightarrow>
       image_aggregate_sum_views store_client st = (st, Inr None) \<and> views_count r = 0) \<and>
    (\<forall>st2 st2' r2.
       mset (images st2) = mset (images st) \<and>
       getStats b store_client store_datasource st2 = (st2', Inr r2) \<longrightarrow>
       views_count r2 = views_count r)"
proof -
  have v: "views_count r = sum_list (map views (images st))"
    if "getStats b store_client store_datasource st = (st', Inr r)" for st st' r
    using store_getStats_ok [OF store_getStats_report [OF that], of b] that by auto
  have "image_aggregate_sum_views store_client st = (st, Inr None)" if "images st = []"
    using that by (simp add: store_sel query_def sum_views_def)
  moreover have "views_count r2 = views_count r"
    if "mset (images st2) = mset (images st)"
      and "getStats b store_client store_datasource st2 = (st2', Inr r2)" for st2 st2' r2
    using v [OF that(2)] v [OF assms] sum_list_map_mset [OF that(1), of views] by simp
  ultimately show ?thesis
    using v [OF assms] by auto
qed

theorem getStats_views_count_witness:
  "getStats (\<lambda>n. ''4.1 kB'') store_client store_datasource example_store =
     (example_store,
      Inr \<lparr>size_str = ''4.1 kB'', size_num = 4096, count_num = 3,
           count_by_user = [\<lparr>u_username = ''A'', u_count = 2\<rparr>, \<lparr>u_username = ''B'', u_count = 1\<rparr>],
           count_users = 2, views_count = 7,
           types_count = [\<lparr>t_mimetype = ''image/png'', t_count = 2\<rparr>,
                          \<lparr>t_mimetype = ''application/json'', t_count = 1\<rparr>]\<rparr>) \<and>
   sum_list (map views (images example_store)) = 7 \<and>
   getStats (\<lambda>n. ''0.0 B'') store_client store_datasource empty_store =
     (empty_store,
      Inr \<lparr>size_str = ''0.0 B'', size_num = 0, count_num = 0, count_by_user = [],
           count_users = 0, views_count = 0, types_count = []\<rparr>) \<and>
   images empty_store = [] \<and>
   image_aggregate_sum_views store_client empty_store = (empty_store, Inr None)"
proof -
  have h: "getStats (\<lambda>n. ''4.1 kB'') store_client store_datasource example_store =
     (example_store,
      Inr \<lparr>size_str = ''4.1 kB'', size_num = 4096, count_num = 3,
           count_by_user = [\<lparr>u_username = ''A'', u_count = 2\<rparr>, \<lparr>u_username = ''B'', u_count = 1\<rparr>],
           count_users = 2, views_count = 7,
           types_count = [\<lparr>t_mimetype = ''image/png'', t_count = 2\<rparr>,
                          \<lparr>t_mimetype = ''application/json'', t_count = 1\<rparr>]\<rparr>)"
    by (simp add: getStats_def await_def store_sel query_def example_store_def
        groupBy_userId_def groupBy_mimetype_def sum_views_def resolve_def sort_js_def)
  have e: "getStats (\<lambda>n. ''0.0 B'') store_client store_datasource empty_store =
     (empty_store,
      Inr \<lparr>size_str = ''0.0 B'', size_num = 0, count_num = 0, count_by_user = [],
           count_users = 0, views_count = 0, types_count = []\<rparr>)"
    by (simp add: getStats_def await_def store_sel query_def empty_store_def
        groupBy_userId_def groupBy_mimetype_def sum_views_def resolve_def sort_js_def)
  have i: "images empty_store = []" by (simp add: empty_store_def)
  show ?thesis
    using getStats_views_count [OF h] getStats_views_count [OF e] h e i by simp
qed

text \<open>
  C8. On the empty store (no images, no users, zero occupied bytes)
  \<^verbatim>\<open>getStats\<close> returns the report with raw size 0 (and the human-readable
  rendering of 0 bytes), count 0, \<open>count_users\<close> 0, \<open>views_count\<close> 0 and empty
  per-user and per-type lists.
\<close>

theorem getStats_empty_store:
  "getStats b store_client store_datasource empty_store =
     (empty_store,
      Inr \<lparr>size_str = b 0, size_num = 0, count_num = 0, count_by_user = [],
           count_users = 0, views_count = 0, types_count = []\<rparr>)"
  by (simp add: getStats_def await_def store_sel query_def empty_store_def
      groupBy_userId_def groupBy_mimetype_def sum_views_def resolve_def sort_js_def)

text \<open>
  C9. \<^verbatim>\<open>getStats\<close> returns a report only when each of its sub-queries, run
  in turn, has returned its result. With a client and a datasource that only
  read, \<^verbatim>\<open>getStats\<close> leaves the store as it found it, and when any of its
  sub-queries throws on the store, \<^verbatim>\<open>getStats\<close> throws: there is no report.
\<close>

theorem getStats_all_or_nothing:
  "(\<forall>w' r. getStats b prisma datasource w = (w', Inr r) \<longrightarrow>
      (\<exists>w1 w2 w3 w4 w5 w6 sz byUser cu entries cnt vw typesCount.
         fullSize datasource w = (w1, Inr sz) \<and>
         image_groupBy_userId prisma w1 = (w2, Inr byUser) \<and>
         user_count prisma w2 = (w3, Inr cu) \<and>
         count_by_user_loop prisma byUser [] w3 = (w4, Inr entries) \<and>
         image_count prisma w4 = (w5, Inr cnt) \<and>
         image_aggregate_sum_views prisma w5 = (w6, Inr vw) \<and>
         image_groupBy_mimetype prisma w6 = (w', Inr typesCount))) \<and>
   (read_only prisma datasource \<longrightarrow>
      fst (getStats b prisma datasource w) = w \<and>
      (some_query_fails prisma datasource w \<longrightarrow>
         isl (snd (getStats b prisma datasource w))))"
proof (intro conjI allI impI)
  fix w' r
  assume "getStats b prisma datasource w = (w', Inr r)"
  from getStats_report [OF this]
  show "\<exists>w1 w2 w3 w4 w5 w6 sz byUser cu entries cnt vw typesCount.
         fullSize datasource w = (w1, Inr sz) \<and>
         image_groupBy_userId prisma w1 = (w2, Inr byUser) \<and>
         user_count prisma w2 = (w3, Inr cu) \<and>
         count_by_user_loop prisma byUser [] w3 = (w4, Inr entries) \<and>
         image_count prisma w4 = (w5, Inr cnt) \<and>
         image_aggregate_sum_views prisma w5 = (w6, Inr vw) \<and>
         image_groupBy_mimetype prisma w6 = (w', Inr typesCount)"
    by blast
next
  assume "read_only prisma datasource"
  then show "fst (getStats b prisma datasource w) = w"
    by (rule getStats_fst)
next
  assume "read_only prisma datasource" and "some_query_fails prisma datasource w"
  then show "isl (snd (getStats b prisma datasource w))"
    by (rule getStats_fails)
qed

theorem getStats_all_or_nothing_witness:
  "read_only failing_client store_datasource \<and>
   some_query_fails failing_client store_datasource example_store \<and>
   getStats (\<lambda>n. ''4.1 kB'') failing_client store_datasource example_store =
     (example_store, Inl \<lparr>message = ''P2024: timed out''\<rparr>)"
proof -
  have r: "read_only failing_client store_datasource"
    by (simp add: read_only_def failing_client_def store_client_def store_datasource_def
        query_def throw_def)
  have f: "some_query_fails failing_client store_datasource example_store"
    by (simp add: some_query_fails_def failing_client_def throw_def)
  have "getStats (\<lambda>n. ''4.1 kB'') failing_client store_datasource example_store =
     (example_store, Inl \<lparr>message = ''P2024: timed out''\<rparr>)"
    using getStats_all_or_nothing [of "\<lambda>n. ''4.1 kB''" failing_client store_datasource
        example_store] r f
    by (simp add: getStats_def await_def failing_client_def store_client_def store_datasource_def
        query_def throw_def example_store_def groupBy_userId_def)
  with r f show ?thesis by simp
qed

text \<open>
  C10. On a store where some image has an owner id with no user row,
  \<^verbatim>\<open>getStats\<close> throws the \<^verbatim>\<open>TypeError\<close> of \<^verbatim>\<open>user.username\<close> on
  \<^verbatim>\<open>null\<close>. On a store where every owner id has a user row it returns a
  report whose \<open>count_by_user\<close> has one entry for each distinct owner, with
  that owner's username and number of images.
\<close>

theorem getStats_owner_lookup:
  "((\<exists>i\<in>set (images st). \<not> (\<exists>u\<in>set (users st). user_id u = userId i)) \<longrightarrow>
      getStats b store_client store_datasource st = (st, Inl TypeError_null)) \<and>
   ((\<forall>i\<in>set (images st). \<exists>u\<in>set (users st). user_id u = userId i) \<longrightarrow>
      (\<exists>r. getStats b store_client store_datasource st = (st, Inr r) \<and>
           length (count_by_user r) = card (userId ` set (images st)) \<and>
           mset (count_by_user r) =
             image_mset (owner_entry st) (mset_set (userId ` set (images st)))))"
proof (intro conjI impI)
  assume "\<exists>i\<in>set (images st). \<not> (\<exists>u\<in>set (users st). user_id u = userId i)"
  then show "getStats b store_client store_datasource st = (st, Inl TypeError_null)"
    by (rule store_getStats_null)
next
  assume a: "\<forall>i\<in>set (images st). \<exists>u\<in>set (users st). user_id u = userId i"
  let ?owners = "remdups (map userId (images st))"
  have m: "mset ?owners = mset_set (userId ` set (images st))"
    using mset_set_set [of ?owners] by simp
  have "length ?owners = card (userId ` set (images st))"
    using distinct_card [of ?owners] by simp
  with m store_getStats_ok [OF a, of b]
  show "\<exists>r. getStats b store_client store_datasource st = (st, Inr r) \<and>
           length (count_by_user r) = card (userId ` set (images st)) \<and>
           mset (count_by_user r) =
             image_mset (owner_entry st) (mset_set (userId ` set (images st)))"
    by (simp add: mset_sort_js sort_js_sort_key)
qed

theorem getStats_owner_lookup_witness:
  "getStats (\<lambda>n. ''4.1 kB'') store_client store_datasource orphan_store =
     (orphan_store, Inl TypeError_null) \<and>
   (\<exists>r. getStats (\<lambda>n. ''4.1 kB'') store_client store_datasource example_store =
          (example_store, Inr r) \<and>
        length (count_by_user r) = 2)"
proof -
  have o: "\<exists>i\<in>set (images orphan_store). \<not> (\<exists>u\<in>set (users orphan_store). user_id u = userId i)"
    by (simp add: orphan_store_def example_store_def)
  have e: "\<forall>i\<in>set (images example_store). \<exists>u\<in>set (users example_store). user_id u = userId i"
    by (simp add: example_store_def)
  have c: "card (userId ` set (images example_store)) = 2"
    by (simp add: example_store_def card_insert_if)
  show ?thesis
    using getStats_owner_lookup [of orphan_store "\<lambda>n. ''4.1 kB''"]
      getStats_owner_lookup [of example_store "\<lambda>n. ''4.1 kB''"] o e c
    by auto
qed

end
